theory Spec2Isabelle
  imports Main "HOL-Library.Sublist"
begin

section \<open>Go values shared by both packages\<close>

text \<open>
  A Go \<open>string\<close> is a sequence of bytes; \<open>len\<close> counts bytes. It is modelled as
  \<^typ>\<open>string\<close> (a list of 8-bit characters). Go \<open>int\<close> values are modelled as
  \<^typ>\<open>int\<close>; the only arithmetic on them is \<open>idx + len(s)\<close> on lengths of strings held
  in memory, which cannot wrap. An \<open>error\<close> value is opaque; a run-time panic is an error
  of its own.
\<close>

datatype error = GoError string | RuntimePanic

section \<open>Package inspect: Dockerfile recommendations\<close>

subsection \<open>Data\<close>

type_synonym Action = int

definition Replace :: Action where "Replace = 0"
definition Add :: Action where "Add = 1"
definition Delete :: Action where "Delete = 2"
definition Noop :: Action where "Noop = 3"

text \<open>\<open>func (a Action) String() string\<close>: indexing the four-element array panics when
  the index is out of range; \<open>None\<close> stands for that panic.\<close>

definition Action_String :: "Action \<Rightarrow> string option" where
  "Action_String a =
     (if 0 \<le> a \<and> a < 4
      then Some ([''Replace'', ''Add'', ''Delete'', ''Noop''] ! nat a)
      else None)"

record ConfigOpt =
  Action :: Action
  Path :: string
  ConfigTemplate :: string
  TextStartIndex :: int
  TextEndIndex :: int
  Explanation :: string

record Recommendation =
  FlaggedConfig :: ConfigOpt
  RecommendedConfig :: ConfigOpt

type_synonym RecommendedConfig = "Recommendation list"

record Dockerfile =
  AbsPath :: string
  RelPath :: string
  Text :: string

subsection \<open>The standard library functions the matcher calls\<close>

text \<open>
  \<open>strings.ToUpper\<close> and \<open>strings.Index\<close> belong to Go's standard library. They are
  written out here as the library computes them. \<open>strings.ToUpper\<close> has two paths: a
  string of ASCII bytes only is upper-cased byte by byte; any other string goes through
  \<open>strings.Map(unicode.ToUpper, s)\<close>, which decodes the string rune by rune (an invalid
  byte decodes to \<open>utf8.RuneError\<close>, width 1), maps every rune and writes the UTF-8
  encoding of the result. The case table \<open>unicode.ToUpper\<close> is the parameter \<open>U\<close>.
\<close>

definition upperByte :: "char \<Rightarrow> char" where
  "upperByte c =
     (let n = (of_char c :: nat)
      in if 97 \<le> n \<and> n \<le> 122 then char_of (n - 32) else c)"

definition RuneError :: nat where
  "RuneError = 65533"

text \<open>The table \<open>first\<close> of package \<open>utf8\<close> with its accept ranges: for the lead byte of
  a multi-byte sequence, the length of the sequence and the range allowed for the second
  byte; \<open>None\<close> for every byte that cannot start a multi-byte sequence.\<close>

definition first :: "nat \<Rightarrow> (nat \<times> nat \<times> nat) option" where
  "first b =
     (if 194 \<le> b \<and> b \<le> 223 then Some (2, 128, 191)
      else if b = 224 then Some (3, 160, 191)
      else if (225 \<le> b \<and> b \<le> 236) \<or> b = 238 \<or> b = 239 then Some (3, 128, 191)
      else if b = 237 then Some (3, 128, 159)
      else if b = 240 then Some (4, 144, 191)
      else if 241 \<le> b \<and> b \<le> 243 then Some (4, 128, 191)
      else if b = 244 then Some (4, 128, 143)
      else None)"

text \<open>\<open>utf8.DecodeRuneInString\<close>: the rune at the start of the string and its width.\<close>

fun DecodeRuneInString :: "string \<Rightarrow> nat \<times> nat" where
  "DecodeRuneInString [] = (RuneError, 0)"
| "DecodeRuneInString (c # cs) =
     (let s0 = (of_char c :: nat) in
      if s0 < 128 then (s0, 1)
      else case first s0 of
        None \<Rightarrow> (RuneError, 1)
      | Some (sz, lo, hi) \<Rightarrow>
          if Suc (length cs) < sz then (RuneError, 1)
          else let s1 = (of_char (cs ! 0) :: nat) in
            if s1 < lo \<or> hi < s1 then (RuneError, 1)
            else if sz \<le> 2 then ((s0 mod 32) * 64 + s1 mod 64, 2)
            else let s2 = (of_char (cs ! 1) :: nat) in
              if s2 < 128 \<or> 191 < s2 then (RuneError, 1)
              else if sz \<le> 3
                then ((s0 mod 16) * 4096 + (s1 mod 64) * 64 + s2 mod 64, 3)
              else let s3 = (of_char (cs ! 2) :: nat) in
                if s3 < 128 \<or> 191 < s3 then (RuneError, 1)
                else ((s0 mod 8) * 262144 + (s1 mod 64) * 4096
                        + (s2 mod 64) * 64 + s3 mod 64, 4))"

text \<open>The runes a \<open>for _, c := range s\<close> loop visits.\<close>

fun runes :: "string \<Rightarrow> nat list" where
  "runes [] = []"
| "runes (c # cs) =
     fst (DecodeRuneInString (c # cs))
       # runes (drop (snd (DecodeRuneInString (c # cs)) - 1) cs)"

text \<open>\<open>utf8.AppendRune\<close>, as \<open>Builder.WriteRune\<close> uses it: surrogates and values beyond
  \<open>utf8.MaxRune\<close> are written as \<open>RuneError\<close>.\<close>

definition EncodeRune :: "nat \<Rightarrow> string" where
  "EncodeRune r =
     (if r \<le> 127 then [char_of r]
      else if r \<le> 2047 then [char_of (192 + r div 64), char_of (128 + r mod 64)]
      else if 1114111 < r \<or> (55296 \<le> r \<and> r \<le> 57343)
        then [char_of (239::nat), char_of (191::nat), char_of (189::nat)]
      else if r \<le> 65535
        then [char_of (224 + r div 4096), char_of (128 + (r div 64) mod 64),
              char_of (128 + r mod 64)]
      else [char_of (240 + r div 262144), char_of (128 + (r div 4096) mod 64),
            char_of (128 + (r div 64) mod 64), char_of (128 + r mod 64)])"

definition Map_runes :: "(nat \<Rightarrow> nat) \<Rightarrow> string \<Rightarrow> string" where
  "Map_runes U s = concat (map (\<lambda>c. EncodeRune (U c)) (runes s))"

definition isASCII :: "string \<Rightarrow> bool" where
  "isASCII s = list_all (\<lambda>c. (of_char c :: nat) < 128) s"

definition ToUpper :: "(nat \<Rightarrow> nat) \<Rightarrow> string \<Rightarrow> string" where
  "ToUpper U s = (if isASCII s then map upperByte s else Map_runes U s)"

text \<open>\<open>strings.Index(s, substr)\<close>: the index of the first instance of \<open>substr\<close> in \<open>s\<close>,
  or \<open>-1\<close> when there is none.\<close>

fun Index :: "string \<Rightarrow> string \<Rightarrow> int" where
  "Index [] substr = (if substr = [] then 0 else - 1)"
| "Index (c # s) substr =
     (if prefix substr (c # s) then 0
      else let i = Index s substr in if i = - 1 then - 1 else i + 1)"

text \<open>A case table that upper-cases the ASCII letters and leaves every other rune as it
  is. It agrees with \<open>unicode.ToUpper\<close> on ASCII and on \<open>RuneError\<close>.\<close>

definition asciiToUpper :: "nat \<Rightarrow> nat" where
  "asciiToUpper r = (if 97 \<le> r \<and> r \<le> 122 then r - 32 else r)"

subsection \<open>The string-equals matcher\<close>

fun suggestLoop :: "(nat \<Rightarrow> nat) \<Rightarrow> Recommendation list \<Rightarrow> Dockerfile
    \<Rightarrow> Recommendation list" where
  "suggestLoop U [] d = []"
| "suggestLoop U (rec # rc) d =
     (let idx = Index (ToUpper U (Text d))
                      (ToUpper U (ConfigTemplate (FlaggedConfig rec)))
      in if idx \<noteq> - 1
         then rec\<lparr>FlaggedConfig := (FlaggedConfig rec)
                     \<lparr>TextStartIndex := idx,
                      Path := AbsPath d,
                      TextEndIndex :=
                        idx + int (length (ConfigTemplate (FlaggedConfig rec)))\<rparr>,
                  RecommendedConfig := (RecommendedConfig rec)\<lparr>Path := AbsPath d\<rparr>\<rparr>
              # suggestLoop U rc d
         else suggestLoop U rc d)"

definition SuggestRecsViaStringEquals :: "(nat \<Rightarrow> nat) \<Rightarrow> RecommendedConfig \<Rightarrow> Dockerfile
    \<Rightarrow> error + Recommendation list" where
  "SuggestRecsViaStringEquals U rc d = Inr (suggestLoop U rc d)"

definition emptyOpt :: ConfigOpt where
  "emptyOpt = \<lparr>Action = 0, Path = [], ConfigTemplate = [], TextStartIndex = 0,
               TextEndIndex = 0, Explanation = []\<rparr>"

definition StringEqualsRecs :: RecommendedConfig where
  "StringEqualsRecs =
     [\<lparr>FlaggedConfig = emptyOpt\<lparr>ConfigTemplate := ''Copy . .'', Action := Replace\<rparr>,
       RecommendedConfig = emptyOpt
         \<lparr>ConfigTemplate := ''Copy $MIN_SET_OF_NECESSARY_SOURCE_FILES_FOR_IMAGE .'',
          Explanation := ''Found 'COPY . .', this is possibly a docker anti-pattern and has the ''
            @ ''potential to dramatically slow 'skaffold dev' down by having skaffold watch all files in a directory for changes. If you notice skaffold rebuilding images unnecessarily when non-image-critical files are ''
            @ ''modified, consider changing this to `COPY $MIN_SET_OF_NECESSARY_SOURCE_FILES_FOR_IMAGE .` for each required source file instead of ''
            @ ''using 'COPY . .'. See TODO:ADD_A_LINK_HERE''\<rparr>\<rparr>,
      \<lparr>FlaggedConfig = emptyOpt
         \<lparr>ConfigTemplate := ''Testing what only flagged recommendation w/ no rec looks like'',
          Action := Replace\<rparr>,
       RecommendedConfig = emptyOpt\<lparr>Action := Noop\<rparr>\<rparr>]"

definition regexpRecommendations :: "error + Recommendation list" where
  "regexpRecommendations = Inr []"

definition graphRecommendations :: "error + Recommendation list" where
  "graphRecommendations = Inr []"

definition getDockerfileRecommendations :: "(nat \<Rightarrow> nat) \<Rightarrow> Dockerfile
    \<Rightarrow> error + Recommendation list" where
  "getDockerfileRecommendations U d =
     (case SuggestRecsViaStringEquals U StringEqualsRecs d of
        Inl err \<Rightarrow> Inl err
      | Inr stringEqualsRecs \<Rightarrow>
          (case regexpRecommendations of
             Inl err \<Rightarrow> Inl err
           | Inr regexpRecs \<Rightarrow>
               (case graphRecommendations of
                  Inl err \<Rightarrow> Inl err
                | Inr graphRecs \<Rightarrow> Inr (([] @ stringEqualsRecs) @ regexpRecs @ graphRecs))))"

subsection \<open>The diff of one recommendation\<close>

text \<open>
  The Skaffold configuration as far as the two packages read it: the source file of a
  configuration and its build artifacts; \<open>DockerArtifact\<close> is \<open>None\<close> when the pointer is
  \<open>nil\<close> and holds the \<open>DockerfilePath\<close> otherwise.
\<close>

record Artifact =
  Workspace :: string
  DockerArtifact :: "string option"

record SkaffoldConfig =
  SourceFile :: string
  Artifacts :: "Artifact list"

text \<open>A \<open>diff.Object\<close>: the path that labels one side of the diff (\<open>Path\<close>, here
  \<open>objPath\<close>) and the content read from its \<open>ReadSeeker\<close>.\<close>

record Object =
  objPath :: string
  objContent :: string

text \<open>
  \<open>regexp.MustCompile("(?m)[\r\n]+^index.*$").ReplaceAllString(s, "")\<close>. A match starts
  at a carriage return or line feed, takes the whole run of such bytes (a shorter run
  would be followed by one of them, not by \<open>i\<close>), needs the run to end in a line feed
  (\<open>^\<close>) and the text \<open>index\<close> to follow, and extends to the end of that line. Matches
  are removed from left to right; the search resumes where the last match ended.
\<close>

definition isCRLF :: "char \<Rightarrow> bool" where
  "isCRLF c = (c = CHR 0x0D \<or> c = CHR 0x0A)"

text \<open>Whether a match starts at the byte \<open>c\<close> that is followed by \<open>cs\<close>.\<close>

definition indexLineAt :: "char \<Rightarrow> string \<Rightarrow> bool" where
  "indexLineAt c cs =
     (isCRLF c \<and> last (takeWhile isCRLF (c # cs)) = CHR 0x0A
        \<and> prefix ''index'' (dropWhile isCRLF (c # cs)))"

function stripIndexLines :: "string \<Rightarrow> string" where
  "stripIndexLines [] = []"
| "stripIndexLines (c # cs) =
     (if indexLineAt c cs
      then stripIndexLines (dropWhile (\<lambda>x. x \<noteq> CHR 0x0A) (dropWhile isCRLF (c # cs)))
      else c # stripIndexLines cs)"
  by pat_completeness auto
termination
proof (relation "measure length")
  show "wf (measure length)" by simp
next
  fix c :: char and cs :: string
  assume a: "indexLineAt c cs"
  have "length (dropWhile (\<lambda>x. x \<noteq> CHR 0x0A) (dropWhile isCRLF (c # cs)))
          \<le> length (dropWhile isCRLF (c # cs))"
    by (rule length_dropWhile_le)
  also have "\<dots> = length (dropWhile isCRLF cs)" using a by (simp add: indexLineAt_def)
  also have "\<dots> \<le> length cs" by (rule length_dropWhile_le)
  finally show "(dropWhile (\<lambda>x. x \<noteq> CHR 0x0A) (dropWhile isCRLF (c # cs)), c # cs)
      \<in> measure length" by simp
next
  fix c :: char and cs :: string
  show "(cs, c # cs) \<in> measure length" by simp
qed

text \<open>
  \<open>generateRecommendationDiff\<close>. The diff backend (\<open>diff.Writer.Diff\<close> of the go-diff
  library with empty prefixes) is the parameter \<open>differ\<close>: the text it writes for the two
  objects. Slicing \<open>d.Text\<close> panics when an index is negative or beyond the length.
\<close>

definition generateRecommendationDiff :: "(Object \<Rightarrow> Object \<Rightarrow> string) \<Rightarrow> Dockerfile
    \<Rightarrow> Recommendation \<Rightarrow> error + string" where
  "generateRecommendationDiff differ d r =
     (let i = TextStartIndex (FlaggedConfig r);
          j = TextEndIndex (FlaggedConfig r);
          n = int (length (Text d))
      in if i < 0 \<or> n < i \<or> j < 0 \<or> n < j then Inl RuntimePanic
         else
           let s = take (nat i) (Text d) @ ConfigTemplate (RecommendedConfig r)
                     @ drop (nat j) (Text d);
               a = \<lparr>objPath = RelPath d @ ''.orig'', objContent = Text d\<rparr>;
               b = \<lparr>objPath = RelPath d, objContent = s\<rparr>
           in Inr (stripIndexLines (differ a b)))"

subsection \<open>\<open>PrintDockerfilesList\<close>\<close>

text \<open>
  What the surrounding system supplies: the result of \<open>GetConfigSet\<close> for the given
  options, the result of \<open>RealWorkDir\<close>, \<open>ioutil.ReadFile\<close> and \<open>filepath.Join\<close>.
\<close>

record sys =
  getConfigSet :: "error + SkaffoldConfig list"
  realWorkDir :: "error + string"
  ReadFile :: "string \<Rightarrow> error + string"
  Join :: "string list \<Rightarrow> string"

record inspectEnv = sys +
  toUpper :: "nat \<Rightarrow> nat"
  differ :: "Object \<Rightarrow> Object \<Rightarrow> string"
  WriteErr :: "error \<Rightarrow> error option"

text \<open>The state of the first loop: the \<open>seen\<close> map (only the presence of a key is ever
  tested, so it is a set), \<open>l.DockerfileRecs\<close> and \<open>l.Dockerfiles\<close>.\<close>

fun dockerfileArtifacts :: "inspectEnv \<Rightarrow> string \<Rightarrow> Artifact list
    \<Rightarrow> string set \<times> Recommendation list \<times> Dockerfile list
    \<Rightarrow> error + string set \<times> Recommendation list \<times> Dockerfile list" where
  "dockerfileArtifacts env workdir [] st = Inr st"
| "dockerfileArtifacts env workdir (a # as) (seen, recs, dfs) =
     (case DockerArtifact a of
        None \<Rightarrow> dockerfileArtifacts env workdir as (seen, recs, dfs)
      | Some p \<Rightarrow>
          (let fp = Join env [workdir, Workspace a, p] in
           if fp \<in> seen then dockerfileArtifacts env workdir as (seen, recs, dfs)
           else case ReadFile env fp of
                  Inl err \<Rightarrow> Inl err
                | Inr b \<Rightarrow>
                    (let d = \<lparr>AbsPath = fp, RelPath = Join env [Workspace a, p], Text = b\<rparr>
                     in case getDockerfileRecommendations (toUpper env) d of
                          Inl err \<Rightarrow> Inl err
                        | Inr new \<Rightarrow>
                            dockerfileArtifacts env workdir as
                              (insert fp seen, recs @ new, dfs @ [d]))))"

fun dockerfileConfigs :: "inspectEnv \<Rightarrow> string \<Rightarrow> SkaffoldConfig list
    \<Rightarrow> string set \<times> Recommendation list \<times> Dockerfile list
    \<Rightarrow> error + string set \<times> Recommendation list \<times> Dockerfile list" where
  "dockerfileConfigs env workdir [] st = Inr st"
| "dockerfileConfigs env workdir (c # cs) st =
     (case dockerfileArtifacts env workdir (Artifacts c) st of
        Inl err \<Rightarrow> Inl err
      | Inr st' \<Rightarrow> dockerfileConfigs env workdir cs st')"

text \<open>The second loop, from index \<open>i\<close> on: \<open>l.Dockerfiles[i]\<close> panics when \<open>i\<close> is out of
  range. The result is the list of texts handed to \<open>fmt.Println\<close> and the error or panic
  that ended the loop, if any.\<close>

function printDiffs :: "inspectEnv \<Rightarrow> Recommendation list \<Rightarrow> Dockerfile list \<Rightarrow> nat
    \<Rightarrow> string list \<times> error option" where
  "printDiffs env recs dfs i =
     (if i < length recs
      then if i < length dfs
           then case generateRecommendationDiff (differ env) (dfs ! i) (recs ! i) of
                  Inl err \<Rightarrow> ([], Some err)
                | Inr out \<Rightarrow>
                    (let (outs, res) = printDiffs env recs dfs (Suc i) in (out # outs, res))
           else ([], Some RuntimePanic)
      else ([], None))"
  by pat_completeness auto
termination
  by (relation "measure (\<lambda>(env, recs, dfs, i). length recs - i)") auto

definition PrintDockerfilesList :: "inspectEnv \<Rightarrow> string list \<times> error option" where
  "PrintDockerfilesList env =
     (case getConfigSet env of
        Inl err \<Rightarrow> ([], WriteErr env err)
      | Inr cfgs \<Rightarrow>
          (case realWorkDir env of
             Inl err \<Rightarrow> ([], Some err)
           | Inr workdir \<Rightarrow>
               (case dockerfileConfigs env workdir cfgs ({}, [], []) of
                  Inl err \<Rightarrow> ([], Some err)
                | Inr (seen, recs, dfs) \<Rightarrow> printDiffs env recs dfs 0)))"

text \<open>The recommendations the first loop of \<open>PrintDockerfilesList\<close> collects.\<close>

definition collectedRecs :: "inspectEnv \<Rightarrow> Recommendation list option" where
  "collectedRecs env =
     (case getConfigSet env of
        Inl err \<Rightarrow> None
      | Inr cfgs \<Rightarrow>
          (case realWorkDir env of
             Inl err \<Rightarrow> None
           | Inr workdir \<Rightarrow>
               (case dockerfileConfigs env workdir cfgs ({}, [], []) of
                  Inl err \<Rightarrow> None
                | Inr (seen, recs, dfs) \<Rightarrow> Some recs)))"

section \<open>Package lint: the orchestrator\<close>

subsection \<open>Data\<close>

text \<open>The fields \<open>AbsPath\<close>, \<open>RelPath\<close> and \<open>Text\<close> of a \<open>ConfigFile\<close> carry the prefix
  \<open>cf\<close> here, since \<open>Dockerfile\<close> has fields of the same names; likewise the field
  \<open>Filter\<close> of a \<open>Rule\<close> is \<open>RuleFilter\<close>, apart from the \<open>Filter\<close> of a
  \<open>YamlFieldFilter\<close>.\<close>

record ConfigFile =
  cfAbsPath :: string
  cfRelPath :: string
  cfText :: string

record LintInputs =
  ConfigFile :: ConfigFile
  DockerfileToDepMap :: "string \<rightharpoonup> string list"
  SkaffoldConfig :: SkaffoldConfig

datatype Linter = RegExpLinter | YamlFieldLinter

datatype RuleType = YamlFieldLintRule

datatype RuleID =
  SkaffoldYamlAPIVersionOutOfDate | SkaffoldYamlUseStaticPort | SkaffoldYamlSyncPython

text \<open>The kyaml filters the catalog uses, as data: \<open>yaml.FieldMatcher\<close> with its \<open>Name\<close>
  and \<open>StringRegexValue\<close>, \<open>yaml.Get\<close> and \<open>yaml.Lookup\<close>.\<close>

datatype yamlFilter =
  FieldMatcher string string
  | Get string
  | Lookup "string list"

record YamlFieldFilter =
  Filter :: yamlFilter
  FieldOnly :: string
  InvertMatch :: bool

text \<open>A \<open>Rule\<close> with the fields that select and gate it. \<open>RuleID\<close> is \<open>None\<close> where the
  literal leaves it out. The explanation template and its populator play no part in the
  functions modelled here and are left out.\<close>

record Rule =
  RuleFilter :: YamlFieldFilter
  RuleID :: "RuleID option"
  RuleType :: RuleType
  LintConditions :: "(LintInputs \<Rightarrow> bool) list"

text \<open>\<open>strings.TrimPrefix\<close>.\<close>

definition TrimPrefix :: "string \<Rightarrow> string \<Rightarrow> string" where
  "TrimPrefix s p = (if prefix p s then drop (length p) s else s)"

text \<open>
  What the orchestrator calls besides the system: dependency extraction
  (\<open>getDockerfileFileDependencies(ws, fp, runCtx)\<close>, which forwards to
  \<open>docker.GetDependencies\<close>), the \<open>Lint\<close> method of the two linters, and the current
  schema version \<open>version.Get().ConfigVersion\<close>. The result type of a linter is \<open>'r\<close>.
\<close>

record 'r lintEnv = sys +
  GetDependencies :: "string \<Rightarrow> string \<Rightarrow> error + string list"
  Lint :: "Linter \<Rightarrow> LintInputs \<Rightarrow> Rule list \<Rightarrow> error + 'r list"
  ConfigVersion :: string

subsection \<open>The conditions of the sync rule\<close>

definition syncNestedRules :: "Rule list" where
  "syncNestedRules =
     [\<lparr>RuleFilter = \<lparr>Filter = Lookup [''build'', ''sync''], FieldOnly = [],
                     InvertMatch = True\<rparr>,
       RuleID = None, RuleType = YamlFieldLintRule, LintConditions = []\<rparr>]"

definition syncConditionNoSyncStanza ::
    "(Linter \<Rightarrow> LintInputs \<Rightarrow> Rule list \<Rightarrow> error + 'r list) \<Rightarrow> LintInputs \<Rightarrow> bool" where
  "syncConditionNoSyncStanza lint lintInputs =
     (case lint YamlFieldLinter lintInputs syncNestedRules of
        Inl err \<Rightarrow> False
      | Inr recs \<Rightarrow> if length recs > 0 then True else False)"

definition syncConditionPythonDeps :: "LintInputs \<Rightarrow> bool" where
  "syncConditionPythonDeps lintInputs =
     (\<exists>deps \<in> ran (DockerfileToDepMap lintInputs). \<exists>dep \<in> set deps. suffix ''.py'' dep)"

definition skaffoldYamlRules :: "'r lintEnv \<Rightarrow> Rule list" where
  "skaffoldYamlRules env =
     [\<lparr>RuleFilter = \<lparr>Filter = FieldMatcher ''apiVersion'' (''[^'' @ ConfigVersion env @ '']''),
                     FieldOnly = [], InvertMatch = False\<rparr>,
       RuleID = Some SkaffoldYamlAPIVersionOutOfDate, RuleType = YamlFieldLintRule,
       LintConditions = []\<rparr>,
      \<lparr>RuleFilter = \<lparr>Filter = FieldMatcher ''portForward'' [], FieldOnly = [],
                     InvertMatch = True\<rparr>,
       RuleID = Some SkaffoldYamlUseStaticPort, RuleType = YamlFieldLintRule,
       LintConditions = []\<rparr>,
      \<lparr>RuleFilter = \<lparr>Filter = Get ''build'', FieldOnly = ''build'', InvertMatch = False\<rparr>,
       RuleID = Some SkaffoldYamlSyncPython, RuleType = YamlFieldLintRule,
       LintConditions = [syncConditionNoSyncStanza (Lint env), syncConditionPythonDeps]\<rparr>]"

definition SkaffoldYamlLinters :: "Linter list" where
  "SkaffoldYamlLinters = [RegExpLinter, YamlFieldLinter]"

subsection \<open>\<open>GetSkaffoldYamlsLintResults\<close>\<close>

text \<open>
  Every call the orchestrator makes to a collaborator is recorded, in order, with the
  index of the configuration unit during whose iteration it is made.
\<close>

datatype event =
  EvReadFile nat string
  | EvGetDeps nat string string
  | EvLint nat Linter LintInputs

text \<open>The loop over the artifacts of configuration \<open>k\<close>; \<open>seen\<close> and \<open>dockerfileDepMap\<close>
  are threaded through.\<close>

fun artifactsLoop :: "'r lintEnv \<Rightarrow> string \<Rightarrow> nat \<Rightarrow> Artifact list \<Rightarrow> string set
    \<Rightarrow> (string \<rightharpoonup> string list)
    \<Rightarrow> (error + string set \<times> (string \<rightharpoonup> string list)) \<times> event list" where
  "artifactsLoop env workdir k [] seen depMap = (Inr (seen, depMap), [])"
| "artifactsLoop env workdir k (a # as) seen depMap =
     (case DockerArtifact a of
        None \<Rightarrow> artifactsLoop env workdir k as seen depMap
      | Some p \<Rightarrow>
          (let ws = Join env [workdir, Workspace a];
               fp = Join env [ws, p]
           in if fp \<in> seen then artifactsLoop env workdir k as seen depMap
              else case GetDependencies env ws fp of
                     Inl err \<Rightarrow> (Inl err, [EvGetDeps k ws fp])
                   | Inr deps \<Rightarrow>
                       (let (res, tr) = artifactsLoop env workdir k as
                                          (insert fp seen) (depMap(fp \<mapsto> deps))
                        in (res, EvGetDeps k ws fp # tr))))"

fun lintersLoop :: "'r lintEnv \<Rightarrow> nat \<Rightarrow> LintInputs \<Rightarrow> Linter list \<Rightarrow> 'r list
    \<Rightarrow> (error + 'r list) \<times> event list" where
  "lintersLoop env k inputs [] results = (Inr results, [])"
| "lintersLoop env k inputs (r # rs) results =
     (case Lint env r inputs (skaffoldYamlRules env) of
        Inl err \<Rightarrow> (Inl err, [EvLint k r inputs])
      | Inr recs \<Rightarrow>
          (let (res, tr) = lintersLoop env k inputs rs (results @ recs)
           in (res, EvLint k r inputs # tr)))"

fun configsLoop :: "'r lintEnv \<Rightarrow> string \<Rightarrow> nat \<Rightarrow> SkaffoldConfig list \<Rightarrow> 'r list
    \<Rightarrow> string set \<Rightarrow> (string \<rightharpoonup> string list)
    \<Rightarrow> (error + 'r list \<times> string set \<times> (string \<rightharpoonup> string list)) \<times> event list" where
  "configsLoop env workdir k [] l seen depMap = (Inr (l, seen, depMap), [])"
| "configsLoop env workdir k (c # cs) l seen depMap =
     (case ReadFile env (SourceFile c) of
        Inl err \<Rightarrow> (Inl err, [EvReadFile k (SourceFile c)])
      | Inr b \<Rightarrow>
          (let skaffoldyaml = \<lparr>cfAbsPath = SourceFile c,
                               cfRelPath = TrimPrefix (SourceFile c) workdir,
                               cfText = b\<rparr>
           in case artifactsLoop env workdir k (Artifacts c) seen depMap of
                (Inl err, tr1) \<Rightarrow> (Inl err, EvReadFile k (SourceFile c) # tr1)
              | (Inr (seen', depMap'), tr1) \<Rightarrow>
                  (case lintersLoop env k
                          \<lparr>ConfigFile = skaffoldyaml, DockerfileToDepMap = depMap',
                           SkaffoldConfig = c\<rparr> SkaffoldYamlLinters [] of
                     (Inl err, tr2) \<Rightarrow> (Inl err, EvReadFile k (SourceFile c) # tr1 @ tr2)
                   | (Inr results, tr2) \<Rightarrow>
                       (let (res, tr3) = configsLoop env workdir (Suc k) cs (l @ results)
                                           seen' depMap'
                        in (res, EvReadFile k (SourceFile c) # tr1 @ tr2 @ tr3)))))"

text \<open>The whole run: the outcome (on success the result list together with the final
  \<open>seen\<close> set and \<open>dockerfileDepMap\<close>) and the calls made.\<close>

definition lintRun :: "'r lintEnv
    \<Rightarrow> (error + 'r list \<times> string set \<times> (string \<rightharpoonup> string list)) \<times> event list" where
  "lintRun env =
     (case getConfigSet env of
        Inl err \<Rightarrow> (Inl err, [])
      | Inr cfgs \<Rightarrow>
          (case realWorkDir env of
             Inl err \<Rightarrow> (Inl err, [])
           | Inr workdir \<Rightarrow> configsLoop env workdir 0 cfgs [] {} Map.empty))"

definition GetSkaffoldYamlsLintResults :: "'r lintEnv \<Rightarrow> error + 'r list" where
  "GetSkaffoldYamlsLintResults env =
     (case fst (lintRun env) of Inl err \<Rightarrow> Inl err | Inr (l, seen, depMap) \<Rightarrow> Inr l)"

definition calls :: "'r lintEnv \<Rightarrow> event list" where
  "calls env = snd (lintRun env)"

subsection \<open>What the specification says about the matcher\<close>

text \<open>A template \<open>t\<close> occurs case-insensitively in \<open>s\<close> at byte offset \<open>i\<close> when the
  slice of \<open>s\<close> of the template's length that starts at \<open>i\<close> equals the template up to
  case.\<close>

definition ciOccursAt :: "(nat \<Rightarrow> nat) \<Rightarrow> string \<Rightarrow> string \<Rightarrow> nat \<Rightarrow> bool" where
  "ciOccursAt U t s i =
     (i + length t \<le> length s \<and> ToUpper U (take (length t) (drop i s)) = ToUpper U t)"

text \<open>The scenario of the specification: a rule that flags \<open>Copy . .\<close> and offers
  \<open>Copy $SRC .\<close>, and the two-line Dockerfile it is run on.\<close>

definition scenarioRule :: Recommendation where
  "scenarioRule =
     \<lparr>FlaggedConfig = emptyOpt\<lparr>ConfigTemplate := ''Copy . .'', Action := Replace\<rparr>,
      RecommendedConfig = emptyOpt\<lparr>ConfigTemplate := ''Copy $SRC .''\<rparr>\<rparr>"

definition scenarioDockerfile :: "string \<Rightarrow> string \<Rightarrow> Dockerfile" where
  "scenarioDockerfile a r =
     \<lparr>AbsPath = a, RelPath = r,
      Text = ''FROM x'' @ [CHR 0x0A] @ ''COPY . .'' @ [CHR 0x0A]\<rparr>"

text \<open>Whether some line of a text (lines end at a line feed) starts with \<open>index\<close>: the
  first line, or a line after a line feed.\<close>

fun indexAfterLF :: "string \<Rightarrow> bool" where
  "indexAfterLF [] = False"
| "indexAfterLF (c # t) = ((c = CHR 0x0A \<and> prefix ''index'' t) \<or> indexAfterLF t)"

definition containsIndexLine :: "string \<Rightarrow> bool" where
  "containsIndexLine s = (prefix ''index'' s \<or> indexAfterLF s)"

text \<open>A diff backend for evaluation: the header lines that the go-diff writer prints
  before the hunks, the \<open>index\<close> line among them.\<close>

definition headerDiffer :: "Object \<Rightarrow> Object \<Rightarrow> string" where
  "headerDiffer a b =
     ''diff --git '' @ objPath a @ '' '' @ objPath b @ [CHR 0x0A]
       @ ''index 0000000..1111111 100644'' @ [CHR 0x0A]
       @ ''--- '' @ objPath a @ [CHR 0x0A]
       @ ''+++ '' @ objPath b @ [CHR 0x0A]"

text \<open>The recommendation of the scenario, as the matcher returns it.\<close>

definition scenarioRec :: Recommendation where
  "scenarioRec =
     \<lparr>FlaggedConfig = \<lparr>Action = Replace, Path = ''/w/Dockerfile'',
         ConfigTemplate = ''Copy . .'', TextStartIndex = 7, TextEndIndex = 15,
         Explanation = []\<rparr>,
      RecommendedConfig = \<lparr>Action = 0, Path = ''/w/Dockerfile'',
         ConfigTemplate = ''Copy $SRC .'', TextStartIndex = 0, TextEndIndex = 0,
         Explanation = []\<rparr>\<rparr>"

text \<open>A Dockerfile saved in Latin-1: the comment holds the byte \<open>0xE9\<close>, which is not
  valid UTF-8 where it stands.\<close>

definition latin1Dockerfile :: Dockerfile where
  "latin1Dockerfile =
     \<lparr>AbsPath = ''/w/Dockerfile'', RelPath = ''Dockerfile'',
      Text = ''# caf'' @ [CHR 0xE9, CHR 0x0A] @ ''COPY . .'' @ [CHR 0x0A]\<rparr>"

text \<open>A run of \<open>PrintDockerfilesList\<close> on one configuration with one Docker artifact whose
  Dockerfile holds the text that the second catalog entry flags.\<close>

definition noopEnv :: inspectEnv where
  "noopEnv =
     \<lparr>getConfigSet = Inr [\<lparr>SourceFile = ''/w/skaffold.yaml'',
                           Artifacts = [\<lparr>Workspace = ''app'',
                                         DockerArtifact = Some ''Dockerfile''\<rparr>]\<rparr>],
      realWorkDir = Inr ''/w'',
      ReadFile = (\<lambda>p. if p = ''/w/app/Dockerfile''
                      then Inr ''Testing what only flagged recommendation w/ no rec looks like''
                      else Inl (GoError ''no such file'')),
      Join = (\<lambda>elems. if elems = [''/w'', ''app'', ''Dockerfile''] then ''/w/app/Dockerfile''
                       else if elems = [''app'', ''Dockerfile''] then ''app/Dockerfile''
                       else concat elems),
      toUpper = asciiToUpper,
      differ = headerDiffer,
      WriteErr = Some\<rparr>"

text \<open>The first catalog entry with the offsets the matcher computes on
  \<open>latin1Dockerfile\<close>.\<close>

definition latin1Rec :: Recommendation where
  "latin1Rec =
     (hd StringEqualsRecs)
       \<lparr>FlaggedConfig := (FlaggedConfig (hd StringEqualsRecs))
          \<lparr>TextStartIndex := 9, Path := ''/w/Dockerfile'', TextEndIndex := 17\<rparr>,
        RecommendedConfig := (RecommendedConfig (hd StringEqualsRecs))
          \<lparr>Path := ''/w/Dockerfile''\<rparr>\<rparr>"

text \<open>Every recommendation of a list that offers no replacement (\<open>Noop\<close>) has an empty
  replacement template.\<close>

definition noopHasEmptyTemplate :: "Recommendation list \<Rightarrow> bool" where
  "noopHasEmptyTemplate recs =
     (\<forall>r\<in>set recs. Action (RecommendedConfig r) = Noop
        \<longrightarrow> ConfigTemplate (RecommendedConfig r) = [])"

text \<open>The recommendation that the run \<open>noopEnv\<close> collects.\<close>

definition noopRec :: Recommendation where
  "noopRec =
     \<lparr>FlaggedConfig = \<lparr>Action = Replace, Path = ''/w/app/Dockerfile'',
         ConfigTemplate = ''Testing what only flagged recommendation w/ no rec looks like'',
         TextStartIndex = 0, TextEndIndex = 61, Explanation = []\<rparr>,
      RecommendedConfig = \<lparr>Action = Noop, Path = ''/w/app/Dockerfile'',
         ConfigTemplate = [], TextStartIndex = 0, TextEndIndex = 0, Explanation = []\<rparr>\<rparr>"

section \<open>What the specification says about the orchestrator\<close>

text \<open>The error a recorded call ended with, \<open>None\<close> when it succeeded.\<close>

fun callError :: "'r lintEnv \<Rightarrow> event \<Rightarrow> error option" where
  "callError env (EvReadFile k p) =
     (case ReadFile env p of Inl err \<Rightarrow> Some err | Inr b \<Rightarrow> None)"
| "callError env (EvGetDeps k ws fp) =
     (case GetDependencies env ws fp of Inl err \<Rightarrow> Some err | Inr deps \<Rightarrow> None)"
| "callError env (EvLint k r inputs) =
     (case Lint env r inputs (skaffoldYamlRules env) of
        Inl err \<Rightarrow> Some err | Inr recs \<Rightarrow> None)"

text \<open>A trace fits an outcome when every call succeeded, or, for a failed run, when the
  last call failed with the error returned and every call before it succeeded.\<close>

definition failsAtEnd :: "'r lintEnv \<Rightarrow> error \<Rightarrow> event list \<Rightarrow> bool" where
  "failsAtEnd env err tr =
     (tr \<noteq> [] \<and> callError env (last tr) = Some err
        \<and> list_all (\<lambda>ev. callError env ev = None) (butlast tr))"

definition traceFits :: "'r lintEnv \<Rightarrow> (error + 'a) \<Rightarrow> event list \<Rightarrow> bool" where
  "traceFits env res tr =
     (case res of Inr x \<Rightarrow> list_all (\<lambda>ev. callError env ev = None) tr
                | Inl err \<Rightarrow> failsAtEnd env err tr)"

text \<open>The place of a call in the order of a run: the unit it belongs to, and within a
  unit reading the file, then extraction, then linting.\<close>

fun callRank :: "event \<Rightarrow> nat" where
  "callRank (EvReadFile k p) = 3 * k"
| "callRank (EvGetDeps k ws fp) = 3 * k + 1"
| "callRank (EvLint k r inputs) = 3 * k + 2"

text \<open>The workspace and Dockerfile path an artifact is extracted with.\<close>

definition dockerfilePath :: "'r lintEnv \<Rightarrow> string \<Rightarrow> Artifact \<Rightarrow> string \<Rightarrow> string" where
  "dockerfilePath env workdir a p = Join env [Join env [workdir, Workspace a], p]"

text \<open>The extractions a run makes, in order: workspace and Dockerfile path of every call
  of \<open>getDockerfileFileDependencies\<close>.\<close>

fun extractions :: "event list \<Rightarrow> (string \<times> string) list" where
  "extractions [] = []"
| "extractions (EvGetDeps k ws fp # tr) = (ws, fp) # extractions tr"
| "extractions (EvReadFile k p # tr) = extractions tr"
| "extractions (EvLint k r inputs # tr) = extractions tr"

text \<open>Workspace and Dockerfile path of every Docker artifact, in the order the
  configuration set lists them, repeated references included.\<close>

definition artifactPaths :: "'r lintEnv \<Rightarrow> string \<Rightarrow> Artifact list \<Rightarrow> (string \<times> string) list" where
  "artifactPaths env workdir as =
     concat (map (\<lambda>a. case DockerArtifact a of
                         None \<Rightarrow> []
                       | Some p \<Rightarrow> [(Join env [workdir, Workspace a],
                                     dockerfilePath env workdir a p)]) as)"

definition dockerPaths :: "'r lintEnv \<Rightarrow> string \<Rightarrow> SkaffoldConfig list
    \<Rightarrow> (string \<times> string) list" where
  "dockerPaths env workdir cfgs =
     concat (map (\<lambda>c. artifactPaths env workdir (Artifacts c)) cfgs)"

text \<open>The deduplicated artifact set: of the references to one Dockerfile path only the
  first is kept.\<close>

function dedupByPath :: "(string \<times> string) list \<Rightarrow> (string \<times> string) list" where
  "dedupByPath [] = []"
| "dedupByPath (p # ps) = p # dedupByPath (filter (\<lambda>q. snd q \<noteq> snd p) ps)"
  by pat_completeness auto
termination
  by (relation "measure length") (auto simp: less_Suc_eq_le)

text \<open>The same for the references whose path is not in a given set.\<close>

definition unseenPaths :: "string set \<Rightarrow> (string \<times> string) list
    \<Rightarrow> (string \<times> string) list" where
  "unseenPaths seen ps = dedupByPath (filter (\<lambda>q. snd q \<notin> seen) ps)"

text \<open>The side-table built by extracting every reference of a list once, starting from
  a given table.\<close>

definition addDeps :: "'r lintEnv \<Rightarrow> (string \<rightharpoonup> string list) \<Rightarrow> string \<times> string
    \<Rightarrow> (string \<rightharpoonup> string list)" where
  "addDeps env m q =
     (case GetDependencies env (fst q) (snd q) of
        Inl err \<Rightarrow> m
      | Inr deps \<Rightarrow> m(snd q \<mapsto> deps))"

definition tableFrom :: "'r lintEnv \<Rightarrow> (string \<rightharpoonup> string list) \<Rightarrow> (string \<times> string) list
    \<Rightarrow> (string \<rightharpoonup> string list)" where
  "tableFrom env m ps = foldl (addDeps env) m ps"

section \<open>Sample runs of the orchestrator\<close>

text \<open>Joining path elements with a slash; on elements that need no cleaning this is what
  \<open>filepath.Join\<close> returns.\<close>

fun slashJoin :: "string list \<Rightarrow> string" where
  "slashJoin [] = []"
| "slashJoin [x] = x"
| "slashJoin (x # y # ys) = x @ ''/'' @ slashJoin (y # ys)"

text \<open>Two configuration units, each with one Docker artifact, and a third unit that
  refers to the Dockerfile of the first.\<close>

definition unitA :: SkaffoldConfig where
  "unitA = \<lparr>SourceFile = ''/w/a/skaffold.yaml'',
            Artifacts = [\<lparr>Workspace = ''a'', DockerArtifact = Some ''Dockerfile''\<rparr>]\<rparr>"

definition unitB :: SkaffoldConfig where
  "unitB = \<lparr>SourceFile = ''/w/b/skaffold.yaml'',
            Artifacts = [\<lparr>Workspace = ''b'', DockerArtifact = Some ''Dockerfile''\<rparr>]\<rparr>"

definition unitA2 :: SkaffoldConfig where
  "unitA2 = \<lparr>SourceFile = ''/w/a/skaffold2.yaml'',
             Artifacts = [\<lparr>Workspace = ''a'', DockerArtifact = Some ''Dockerfile''\<rparr>]\<rparr>"

definition sampleEnv :: "SkaffoldConfig list \<Rightarrow> (string \<Rightarrow> string \<Rightarrow> error + string list)
    \<Rightarrow> (Linter \<Rightarrow> LintInputs \<Rightarrow> Rule list \<Rightarrow> error + string list) \<Rightarrow> string lintEnv" where
  "sampleEnv cfgs deps lint =
     \<lparr>getConfigSet = Inr cfgs,
      realWorkDir = Inr ''/w'',
      ReadFile = (\<lambda>p. Inr ''apiVersion: skaffold/v2beta26''),
      Join = slashJoin,
      GetDependencies = deps,
      Lint = lint,
      ConfigVersion = ''skaffold/v2beta26''\<rparr>"

text \<open>Extraction succeeds for the Dockerfile of the first unit only.\<close>

definition depsOfAOnly :: "string \<Rightarrow> string \<Rightarrow> error + string list" where
  "depsOfAOnly ws fp =
     (if fp = ''/w/a/Dockerfile'' then Inr [''a/main.py'']
      else Inl (GoError ''extraction failed''))"

definition depsOfAll :: "string \<Rightarrow> string \<Rightarrow> error + string list" where
  "depsOfAll ws fp = Inr [ws @ ''/main.py'']"

text \<open>One linter that reports a result for every unit, and a pair of linters of which
  the first fails.\<close>

definition lintReports :: "Linter \<Rightarrow> LintInputs \<Rightarrow> Rule list \<Rightarrow> error + string list" where
  "lintReports r inputs rules =
     (case r of RegExpLinter \<Rightarrow> Inr []
              | YamlFieldLinter \<Rightarrow> Inr [SourceFile (SkaffoldConfig inputs)])"

definition lintRegExpFails :: "Linter \<Rightarrow> LintInputs \<Rightarrow> Rule list \<Rightarrow> error + string list" where
  "lintRegExpFails r inputs rules =
     (case r of RegExpLinter \<Rightarrow> Inl (GoError ''rule failed'')
              | YamlFieldLinter \<Rightarrow> Inr [SourceFile (SkaffoldConfig inputs)])"

definition extractionFailsEnv :: "string lintEnv" where
  "extractionFailsEnv = sampleEnv [unitA, unitB] depsOfAOnly lintReports"

definition ruleFailsEnv :: "string lintEnv" where
  "ruleFailsEnv = sampleEnv [unitA, unitB] depsOfAll lintRegExpFails"

definition sharedDockerfileEnv :: "string lintEnv" where
  "sharedDockerfileEnv = sampleEnv [unitA, unitA2] depsOfAll lintReports"

text \<open>The inputs the linters of a unit are called with in these runs, given the
  side-table at that moment.\<close>

definition inputsOf :: "SkaffoldConfig \<Rightarrow> (string \<rightharpoonup> string list) \<Rightarrow> LintInputs" where
  "inputsOf c depMap =
     \<lparr>ConfigFile = \<lparr>cfAbsPath = SourceFile c, cfRelPath = TrimPrefix (SourceFile c) ''/w'',
                     cfText = ''apiVersion: skaffold/v2beta26''\<rparr>,
      DockerfileToDepMap = depMap,
      SkaffoldConfig = c\<rparr>"

text \<open>A run in which every \<open>Lint\<close> call fails, the nested one of the sync rule
  included.\<close>

definition lintAlwaysFails :: "Linter \<Rightarrow> LintInputs \<Rightarrow> Rule list \<Rightarrow> error + string list" where
  "lintAlwaysFails r inputs rules = Inl (GoError ''lint failed'')"

definition nestedLintFailsEnv :: "string lintEnv" where
  "nestedLintFailsEnv = sampleEnv [unitA] depsOfAll lintAlwaysFails"

section \<open>Properties of package inspect\<close>

subsection \<open>\<open>strings.Index\<close> finds the first occurrence\<close>

lemma Index_bounds: "Index s p = - 1 \<or> (0 \<le> Index s p \<and> Index s p \<le> int (length s))"
  by (induction s) (auto simp: Let_def)

lemma Index_none: "Index s p = - 1 \<longleftrightarrow> (\<forall>i\<le>length s. \<not> prefix p (drop i s))"
proof (induction s)
  case Nil
  then show ?case by auto
next
  case (Cons c s)
  have split: "(\<forall>i\<le>length (c # s). \<not> prefix p (drop i (c # s)))
      \<longleftrightarrow> \<not> prefix p (c # s) \<and> (\<forall>i\<le>length s. \<not> prefix p (drop i s))"
  proof
    assume a: "\<forall>i\<le>length (c # s). \<not> prefix p (drop i (c # s))"
    have "\<not> prefix p (c # s)" using a[rule_format, of 0] by simp
    moreover have "\<forall>i\<le>length s. \<not> prefix p (drop i s)"
    proof (intro allI impI)
      fix i assume "i \<le> length s"
      then show "\<not> prefix p (drop i s)" using a[rule_format, of "Suc i"] by simp
    qed
    ultimately show "\<not> prefix p (c # s) \<and> (\<forall>i\<le>length s. \<not> prefix p (drop i s))" by simp
  next
    assume b: "\<not> prefix p (c # s) \<and> (\<forall>i\<le>length s. \<not> prefix p (drop i s))"
    show "\<forall>i\<le>length (c # s). \<not> prefix p (drop i (c # s))"
    proof (intro allI impI)
      fix i assume "i \<le> length (c # s)"
      then show "\<not> prefix p (drop i (c # s))" using b by (cases i) auto
    qed
  qed
  have nn: "Index s p + 1 \<noteq> - 1" using Index_bounds[of s p] by auto
  show ?case unfolding split using Cons.IH nn by (auto simp: Let_def)
qed

lemma Index_first:
  "Index s p = int i \<Longrightarrow>
     i \<le> length s \<and> prefix p (drop i s) \<and> (\<forall>j<i. \<not> prefix p (drop j s))"
proof (induction s arbitrary: i)
  case Nil
  then show ?case by (auto split: if_splits)
next
  case (Cons c s)
  show ?case
  proof (cases "prefix p (c # s)")
    case True
    with Cons.prems show ?thesis by simp
  next
    case False
    with Cons.prems have ne: "Index s p \<noteq> - 1" and eq: "Index s p + 1 = int i"
      by (auto simp: Let_def split: if_splits)
    from Index_bounds[of s p] ne eq obtain k where k: "i = Suc k" "Index s p = int k"
      by (cases i) auto
    from Cons.IH[OF k(2)]
    have ih: "k \<le> length s" "prefix p (drop k s)" "\<forall>j<k. \<not> prefix p (drop j s)"
      by auto
    have "\<forall>j<i. \<not> prefix p (drop j (c # s))"
    proof (intro allI impI)
      fix j assume "j < i"
      then show "\<not> prefix p (drop j (c # s))" using False ih(3) k(1) by (cases j) auto
    qed
    then show ?thesis using ih k by simp
  qed
qed

subsection \<open>The scenario\<close>

lemma ToUpper_scenario_text:
  "ToUpper U (Text (scenarioDockerfile a r))
     = ''FROM X'' @ [CHR 0x0A] @ ''COPY . .'' @ [CHR 0x0A]"
  by (simp add: scenarioDockerfile_def ToUpper_def isASCII_def upperByte_def char_of_eq_iff)

lemma AbsPath_scenario: "AbsPath (scenarioDockerfile a r) = a"
  by (simp add: scenarioDockerfile_def)

lemma ToUpper_copy: "ToUpper U ''Copy . .'' = ''COPY . .''"
  by (simp add: ToUpper_def isASCII_def upperByte_def char_of_eq_iff)

text \<open>
  C3, as amended. On the text \<open>FROM x\<close>, newline, \<open>COPY . .\<close>, newline, the rule that flags
  \<open>Copy . .\<close> with replacement \<open>Copy $SRC .\<close> yields exactly one recommendation; its
  flagged span starts at byte 7 and ends at byte 15 (7 plus the 8 bytes of the template),
  and both paths are the Dockerfile's absolute path.
\<close>

theorem scenario_one_recommendation:
  "SuggestRecsViaStringEquals U [scenarioRule] (scenarioDockerfile a r) =
     Inr [\<lparr>FlaggedConfig = \<lparr>Action = Replace, Path = a, ConfigTemplate = ''Copy . .'',
              TextStartIndex = 7, TextEndIndex = 15, Explanation = []\<rparr>,
           RecommendedConfig = \<lparr>Action = 0, Path = a, ConfigTemplate = ''Copy $SRC .'',
              TextStartIndex = 0, TextEndIndex = 0, Explanation = []\<rparr>\<rparr>]"
  by (simp add: SuggestRecsViaStringEquals_def scenarioRule_def AbsPath_scenario
        emptyOpt_def ToUpper_scenario_text ToUpper_copy)

text \<open>
  C3, as the specification states it, fails: no run of the scenario yields one
  recommendation whose flagged span is 7 to 16.
\<close>

theorem scenario_end_index_not_16:
  "\<not> (\<exists>rec. SuggestRecsViaStringEquals asciiToUpper [scenarioRule]
                (scenarioDockerfile ''/w/Dockerfile'' ''Dockerfile'') = Inr [rec]
             \<and> TextStartIndex (FlaggedConfig rec) = 7
             \<and> TextEndIndex (FlaggedConfig rec) = 16)"
  by (simp add: SuggestRecsViaStringEquals_def scenarioRule_def AbsPath_scenario
        emptyOpt_def ToUpper_scenario_text ToUpper_copy)

subsection \<open>The diff of one recommendation\<close>

text \<open>The equations of \<open>stripIndexLines\<close> are applied by hand: its recursive call is on
  a term that mentions the whole argument again.\<close>

lemma strip_match:
  "indexLineAt c cs \<Longrightarrow> stripIndexLines (c # cs)
     = stripIndexLines (dropWhile (\<lambda>x. x \<noteq> CHR 0x0A) (dropWhile isCRLF (c # cs)))"
  by (subst stripIndexLines.simps) (simp only: if_True)

lemma strip_no_match:
  "\<not> indexLineAt c cs \<Longrightarrow> stripIndexLines (c # cs) = c # stripIndexLines cs"
  by (subst stripIndexLines.simps) (simp only: if_False)

lemma strip_Nil: "stripIndexLines [] = []"
  by (subst stripIndexLines.simps) (rule refl)

declare stripIndexLines.simps [simp del]

lemma strip_crlf_head:
  "s = [] \<or> isCRLF (hd s) \<Longrightarrow> stripIndexLines s = [] \<or> isCRLF (hd (stripIndexLines s))"
proof (induction s rule: stripIndexLines.induct)
  case 1
  then show ?case by (simp add: strip_Nil)
next
  case (2 c cs)
  show ?case
  proof (cases "indexLineAt c cs")
    case True
    let ?r = "dropWhile (\<lambda>x. x \<noteq> CHR 0x0A) (dropWhile isCRLF (c # cs))"
    have "?r = [] \<or> isCRLF (hd ?r)"
      using hd_dropWhile[of "\<lambda>x. x \<noteq> CHR 0x0A" "dropWhile isCRLF (c # cs)"]
      by (auto simp: isCRLF_def)
    from "2.IH"(1)[OF True this] show ?thesis by (simp only: strip_match[OF True])
  next
    case False
    with "2.prems" show ?thesis by (simp add: strip_no_match)
  qed
qed

lemma strip_keeps_plain_prefix:
  "\<forall>x\<in>set xs. \<not> isCRLF x \<Longrightarrow> prefix xs (stripIndexLines s) \<Longrightarrow> prefix xs s"
proof (induction xs arbitrary: s)
  case Nil
  then show ?case by simp
next
  case (Cons x xs)
  from Cons.prems obtain c cs where s: "s = c # cs" by (cases s) (auto simp: strip_Nil)
  have nc: "\<not> indexLineAt c cs"
  proof
    assume "indexLineAt c cs"
    then have "isCRLF c" by (simp add: indexLineAt_def)
    then have "stripIndexLines s = [] \<or> isCRLF (hd (stripIndexLines s))"
      using strip_crlf_head[of s] s by simp
    with Cons.prems show False by (auto simp: prefix_def)
  qed
  then have eq: "stripIndexLines s = c # stripIndexLines cs"
    using s by (simp add: strip_no_match)
  with Cons.prems have "x = c" "prefix xs (stripIndexLines cs)" by auto
  with Cons.IH[of cs] Cons.prems(1) s show ?case by auto
qed

lemma index_plain: "\<forall>x\<in>set ''index''. \<not> isCRLF x"
  by (simp add: isCRLF_def)

lemma strip_no_index_line: "\<not> indexAfterLF (stripIndexLines s)"
proof (induction s rule: stripIndexLines.induct)
  case 1
  then show ?case by (simp add: strip_Nil)
next
  case (2 c cs)
  show ?case
  proof (cases "indexLineAt c cs")
    case True
    show ?thesis unfolding strip_match[OF True] by (rule "2.IH"(1)[OF True])
  next
    case False
    then have eq: "stripIndexLines (c # cs) = c # stripIndexLines cs"
      by (rule strip_no_match)
    have "\<not> (c = CHR 0x0A \<and> prefix ''index'' (stripIndexLines cs))"
    proof
      assume a: "c = CHR 0x0A \<and> prefix ''index'' (stripIndexLines cs)"
      then have p: "prefix ''index'' cs" using strip_keeps_plain_prefix[OF index_plain] by blast
      then obtain v where v: "cs = ''index'' @ v" by (auto simp: prefix_def)
      have "isCRLF c" using a by (simp add: isCRLF_def)
      moreover have "takeWhile isCRLF (c # cs) = [c]" using v \<open>isCRLF c\<close> by (simp add: isCRLF_def)
      moreover have "dropWhile isCRLF (c # cs) = cs" using v \<open>isCRLF c\<close> by (simp add: isCRLF_def)
      ultimately show False using False a p by (simp add: indexLineAt_def)
    qed
    with "2.IH"(2)[OF False] eq show ?thesis by simp
  qed
qed

lemma strip_first_line:
  "\<not> prefix ''index'' s \<Longrightarrow> \<not> prefix ''index'' (stripIndexLines s)"
  using strip_keeps_plain_prefix[OF index_plain] by blast

lemma strip_no_index: "\<not> prefix ''index'' s \<Longrightarrow> \<not> containsIndexLine (stripIndexLines s)"
  by (simp add: containsIndexLine_def strip_no_index_line strip_first_line)

lemma header_no_index: "\<not> prefix ''index'' (headerDiffer a b)"
  by (simp add: headerDiffer_def)

text \<open>
  C7. When the two indices lie within the Dockerfile text (slicing panics otherwise),
  \<open>generateRecommendationDiff\<close> hands the diff backend the original text labelled
  with the relative path plus \<open>.orig\<close> and, labelled with the relative path, the buffer
  \<open>original[:TextStartIndex] + RecommendedConfig.ConfigTemplate + original[TextEndIndex:]\<close>;
  it returns the backend's text with the \<open>index\<close> lines removed: provided the backend's
  text does not begin with \<open>index\<close> (the go-diff writer begins with \<open>diff --git\<close>), no
  line of the returned text starts with \<open>index\<close>.
\<close>

theorem generateRecommendationDiff_splices_and_strips:
  assumes "0 \<le> TextStartIndex (FlaggedConfig r)"
    and "TextStartIndex (FlaggedConfig r) \<le> int (length (Text d))"
    and "0 \<le> TextEndIndex (FlaggedConfig r)"
    and "TextEndIndex (FlaggedConfig r) \<le> int (length (Text d))"
  shows "\<exists>out. generateRecommendationDiff backend d r = Inr out
     \<and> out = stripIndexLines (backend
          \<lparr>objPath = RelPath d @ ''.orig'', objContent = Text d\<rparr>
          \<lparr>objPath = RelPath d,
           objContent = take (nat (TextStartIndex (FlaggedConfig r))) (Text d)
             @ ConfigTemplate (RecommendedConfig r)
             @ drop (nat (TextEndIndex (FlaggedConfig r))) (Text d)\<rparr>)
     \<and> (\<not> prefix ''index'' (backend
          \<lparr>objPath = RelPath d @ ''.orig'', objContent = Text d\<rparr>
          \<lparr>objPath = RelPath d,
           objContent = take (nat (TextStartIndex (FlaggedConfig r))) (Text d)
             @ ConfigTemplate (RecommendedConfig r)
             @ drop (nat (TextEndIndex (FlaggedConfig r))) (Text d)\<rparr>)
          \<longrightarrow> \<not> containsIndexLine out)"
  using assms by (simp add: generateRecommendationDiff_def Let_def strip_no_index)

theorem generateRecommendationDiff_witness:
  "\<exists>out. generateRecommendationDiff headerDiffer
            (scenarioDockerfile ''/w/Dockerfile'' ''Dockerfile'') scenarioRec = Inr out
     \<and> \<not> containsIndexLine out"
  using generateRecommendationDiff_splices_and_strips[of scenarioRec "scenarioDockerfile ''/w/Dockerfile'' ''Dockerfile''" headerDiffer]
  by (simp add: scenarioRec_def scenarioDockerfile_def header_no_index)

lemma generateRecommendationDiff_scenario:
  "generateRecommendationDiff headerDiffer
            (scenarioDockerfile ''/w/Dockerfile'' ''Dockerfile'') scenarioRec
    = Inr (''diff --git Dockerfile.orig Dockerfile'' @ [CHR 0x0A]
       @ ''--- Dockerfile.orig'' @ [CHR 0x0A]
       @ ''+++ Dockerfile'' @ [CHR 0x0A])"
  by (simp add: generateRecommendationDiff_def scenarioRec_def scenarioDockerfile_def headerDiffer_def
       strip_match strip_no_match strip_Nil indexLineAt_def isCRLF_def)

subsection \<open>The string-equals matcher and the offsets it reports\<close>

lemma char_eq_char_of: "(c = char_of (n::nat)) = (take_bit 8 n = of_char c)"
  using char_of_eq_iff[of n c] by auto

text \<open>
  On ASCII text and an ASCII template the matcher does what the specification says: it
  emits a recommendation exactly when the template occurs case-insensitively, and the
  start index is the first such occurrence.
\<close>

lemma ToUpper_ascii: "isASCII s \<Longrightarrow> ToUpper U s = map upperByte s"
  by (simp add: ToUpper_def)

lemma isASCII_slice: "isASCII s \<Longrightarrow> isASCII (take n (drop i s))"
  unfolding isASCII_def list_all_iff by (auto dest: in_set_takeD in_set_dropD)

lemma prefix_iff_take: "prefix p xs \<longleftrightarrow> length p \<le> length xs \<and> take (length p) xs = p"
  by (metis prefix_length_le take_is_prefix append_eq_conv_conj prefix_def)

lemma ciOccursAt_ascii:
  assumes "isASCII s" and "isASCII t"
  shows "ciOccursAt U t s i \<longleftrightarrow> i \<le> length s \<and> prefix (ToUpper U t) (drop i (ToUpper U s))"
proof -
  have "prefix (map upperByte t) (drop i (map upperByte s))
      \<longleftrightarrow> length t \<le> length s - i \<and> map upperByte (take (length t) (drop i s)) = map upperByte t"
    by (simp add: prefix_iff_take drop_map take_map)
  then show ?thesis
    using assms isASCII_slice[OF assms(1), of "length t" i]
    by (auto simp: ciOccursAt_def ToUpper_ascii)
qed

lemma string_equals_ascii_no_match:
  assumes "isASCII (Text d)" and "isASCII (ConfigTemplate (FlaggedConfig rec))"
  shows "suggestLoop U [rec] d = [] \<longleftrightarrow>
           (\<forall>i. \<not> ciOccursAt U (ConfigTemplate (FlaggedConfig rec)) (Text d) i)"
proof -
  have len: "length (ToUpper U (Text d)) = length (Text d)"
    using assms(1) by (simp add: ToUpper_ascii)
  show ?thesis
    using Index_none[of "ToUpper U (Text d)" "ToUpper U (ConfigTemplate (FlaggedConfig rec))"]
    by (auto simp: Let_def ciOccursAt_ascii[OF assms] len)
qed

lemma string_equals_ascii_first_occurrence:
  assumes "isASCII (Text d)" and "isASCII (ConfigTemplate (FlaggedConfig rec))"
    and "r \<in> set (suggestLoop U [rec] d)"
  shows "\<exists>i. TextStartIndex (FlaggedConfig r) = int i
           \<and> ciOccursAt U (ConfigTemplate (FlaggedConfig rec)) (Text d) i
           \<and> (\<forall>j<i. \<not> ciOccursAt U (ConfigTemplate (FlaggedConfig rec)) (Text d) j)
           \<and> TextEndIndex (FlaggedConfig r) - TextStartIndex (FlaggedConfig r)
               = int (length (ConfigTemplate (FlaggedConfig rec)))
           \<and> Path (FlaggedConfig r) = AbsPath d \<and> Path (RecommendedConfig r) = AbsPath d"
proof -
  let ?idx = "Index (ToUpper U (Text d)) (ToUpper U (ConfigTemplate (FlaggedConfig rec)))"
  from assms(3) have ne: "?idx \<noteq> - 1" by (auto simp: Let_def split: if_splits)
  with Index_bounds[of "ToUpper U (Text d)" "ToUpper U (ConfigTemplate (FlaggedConfig rec))"]
  obtain i where i: "?idx = int i" by (metis nonneg_int_cases)
  have len: "length (ToUpper U (Text d)) = length (Text d)"
    using assms(1) by (simp add: ToUpper_ascii)
  from Index_first[OF i] have f: "i \<le> length (Text d)"
      "prefix (ToUpper U (ConfigTemplate (FlaggedConfig rec))) (drop i (ToUpper U (Text d)))"
      "\<forall>j<i. \<not> prefix (ToUpper U (ConfigTemplate (FlaggedConfig rec))) (drop j (ToUpper U (Text d)))"
    using len by auto
  have r: "r = rec\<lparr>FlaggedConfig := (FlaggedConfig rec)
                     \<lparr>TextStartIndex := ?idx, Path := AbsPath d,
                      TextEndIndex := ?idx + int (length (ConfigTemplate (FlaggedConfig rec)))\<rparr>,
                  RecommendedConfig := (RecommendedConfig rec)\<lparr>Path := AbsPath d\<rparr>\<rparr>"
    using assms(3) ne by (auto simp: Let_def)
  show ?thesis
    using f i by (intro exI[of _ i]) (simp add: r ciOccursAt_ascii[OF assms(1,2)])
qed

text \<open>Upper-casing \<open>latin1Dockerfile\<close> replaces the invalid byte by the three bytes of
  \<open>RuneError\<close>, which moves everything behind it by two.\<close>

lemma ToUpper_latin1:
  "ToUpper asciiToUpper (Text latin1Dockerfile)
     = ''# CAF'' @ [CHR 0xEF, CHR 0xBF, CHR 0xBD, CHR 0x0A] @ ''COPY . .'' @ [CHR 0x0A]"
  by (simp add: latin1Dockerfile_def ToUpper_def isASCII_def Map_runes_def first_def
        EncodeRune_def RuneError_def asciiToUpper_def char_of_eq_iff)

lemma AbsPath_latin1: "AbsPath latin1Dockerfile = ''/w/Dockerfile''"
  by (simp add: latin1Dockerfile_def)

lemma ToUpper_noop_template:
  "ToUpper U ''Testing what only flagged recommendation w/ no rec looks like''
     = ''TESTING WHAT ONLY FLAGGED RECOMMENDATION W/ NO REC LOOKS LIKE''"
  by (simp add: ToUpper_def isASCII_def upperByte_def char_of_eq_iff)

lemma latin1_recommendations:
  "getDockerfileRecommendations asciiToUpper latin1Dockerfile = Inr [latin1Rec]"
  by (simp add: getDockerfileRecommendations_def SuggestRecsViaStringEquals_def
        regexpRecommendations_def graphRecommendations_def StringEqualsRecs_def
        emptyOpt_def latin1Rec_def ToUpper_latin1 ToUpper_copy ToUpper_noop_template
        AbsPath_latin1)

lemma latin1_occurrence:
  "ciOccursAt asciiToUpper ''Copy . .'' (Text latin1Dockerfile) 7
   \<and> \<not> ciOccursAt asciiToUpper ''Copy . .'' (Text latin1Dockerfile) 9
   \<and> length (Text latin1Dockerfile) = 16"
  by (simp add: ciOccursAt_def latin1Dockerfile_def ToUpper_def isASCII_def upperByte_def
        char_of_eq_iff char_eq_char_of)

text \<open>
  C1 at a failing input. For the Dockerfile \<open>latin1Dockerfile\<close> (16 bytes; \<open>COPY . .\<close> starts
  at byte 7) the catalog yields one recommendation whose flagged span is 9 to 17: the
  start is not an occurrence of the template, let alone the first one, which is at 7, and
  the end lies beyond the text, so that \<open>generateRecommendationDiff\<close> panics on it.
\<close>

theorem string_equals_offsets_on_non_ascii_text:
  "getDockerfileRecommendations asciiToUpper latin1Dockerfile = Inr [latin1Rec]
   \<and> TextStartIndex (FlaggedConfig latin1Rec) = 9
   \<and> TextEndIndex (FlaggedConfig latin1Rec) = 17
   \<and> ciOccursAt asciiToUpper (ConfigTemplate (FlaggedConfig latin1Rec))
        (Text latin1Dockerfile) 7
   \<and> \<not> ciOccursAt asciiToUpper (ConfigTemplate (FlaggedConfig latin1Rec))
        (Text latin1Dockerfile) 9
   \<and> length (Text latin1Dockerfile) = 16
   \<and> generateRecommendationDiff backend latin1Dockerfile latin1Rec = Inl RuntimePanic"
proof -
  have t: "ConfigTemplate (FlaggedConfig latin1Rec) = ''Copy . .''"
    and i: "TextStartIndex (FlaggedConfig latin1Rec) = 9"
    and j: "TextEndIndex (FlaggedConfig latin1Rec) = 17"
    by (simp_all add: latin1Rec_def StringEqualsRecs_def emptyOpt_def)
  have "generateRecommendationDiff backend latin1Dockerfile latin1Rec = Inl RuntimePanic"
    using latin1_occurrence by (simp add: generateRecommendationDiff_def i j)
  then show ?thesis
    using latin1_recommendations latin1_occurrence by (simp add: t i j)
qed

subsection \<open>Recommendations that offer no replacement\<close>

lemma suggestLoop_keeps_recommended:
  "r \<in> set (suggestLoop U rc d) \<Longrightarrow>
     \<exists>rec\<in>set rc. Action (RecommendedConfig r) = Action (RecommendedConfig rec)
        \<and> ConfigTemplate (RecommendedConfig r) = ConfigTemplate (RecommendedConfig rec)"
  by (induction rc) (auto simp: Let_def split: if_splits)

lemma catalog_noop_empty:
  "\<forall>rec\<in>set StringEqualsRecs.
     Action (RecommendedConfig rec) = Noop \<longrightarrow> ConfigTemplate (RecommendedConfig rec) = []"
  by (simp add: StringEqualsRecs_def emptyOpt_def Noop_def)

lemma getDockerfileRecommendations_noop:
  "getDockerfileRecommendations U d = Inr new \<Longrightarrow> noopHasEmptyTemplate new"
  unfolding noopHasEmptyTemplate_def
  using suggestLoop_keeps_recommended[of _ U StringEqualsRecs d] catalog_noop_empty
  by (auto simp: getDockerfileRecommendations_def SuggestRecsViaStringEquals_def
        regexpRecommendations_def graphRecommendations_def) metis

lemma dockerfileArtifacts_noop:
  "dockerfileArtifacts env workdir as st = Inr (seen', recs', dfs') \<Longrightarrow>
     noopHasEmptyTemplate (fst (snd st)) \<Longrightarrow> noopHasEmptyTemplate recs'"
proof (induction env workdir as st rule: dockerfileArtifacts.induct)
  case (1 env workdir st)
  then show ?case by auto
next
  case (2 env workdir a as seen recs dfs)
  show ?case
  proof (cases "DockerArtifact a")
    case None
    with 2 show ?thesis by simp
  next
    case (Some p)
    let ?fp = "Join env [workdir, Workspace a, p]"
    show ?thesis
    proof (cases "?fp \<in> seen")
      case True
      with 2 Some show ?thesis by simp
    next
      case False
      from "2.prems"(1) Some False obtain b where b: "ReadFile env ?fp = Inr b"
        by (auto simp: Let_def split: sum.splits)
      let ?d = "\<lparr>AbsPath = ?fp, RelPath = Join env [Workspace a, p], Text = b\<rparr>"
      from "2.prems"(1) Some False b obtain new where
        new: "getDockerfileRecommendations (toUpper env) ?d = Inr new"
        by (auto simp: Let_def split: sum.splits)
      have "noopHasEmptyTemplate (recs @ new)"
        using "2.prems"(2) getDockerfileRecommendations_noop[OF new]
        by (auto simp: noopHasEmptyTemplate_def)
      moreover have "dockerfileArtifacts env workdir as (insert ?fp seen, recs @ new, dfs @ [?d])
          = Inr (seen', recs', dfs')"
        using "2.prems"(1) Some False b new by (simp add: Let_def)
      ultimately show ?thesis
        using "2.IH"(3)[OF Some refl False b refl new] by simp
    qed
  qed
qed

lemma dockerfileConfigs_noop:
  "dockerfileConfigs env workdir cs st = Inr (seen', recs', dfs') \<Longrightarrow>
     noopHasEmptyTemplate (fst (snd st)) \<Longrightarrow> noopHasEmptyTemplate recs'"
proof (induction cs arbitrary: st)
  case Nil
  then show ?case by auto
next
  case (Cons c cs)
  from Cons.prems(1) obtain st' where st': "dockerfileArtifacts env workdir (Artifacts c) st = Inr st'"
    by (auto split: sum.splits)
  obtain s1 r1 d1 where s: "st' = (s1, r1, d1)" by (cases st') auto
  have "noopHasEmptyTemplate r1" using dockerfileArtifacts_noop[OF st'[unfolded s] Cons.prems(2)] .
  moreover have "dockerfileConfigs env workdir cs st' = Inr (seen', recs', dfs')"
    using Cons.prems(1) st' by simp
  ultimately show ?case using Cons.IH[of st'] s by simp
qed

lemma printDiffs_count:
  "printDiffs env recs dfs i = (outs, None) \<Longrightarrow> length outs = length recs - i"
proof (induction env recs dfs i arbitrary: outs rule: printDiffs.induct)
  case (1 env recs dfs i)
  show ?case
  proof (cases "i < length recs")
    case False
    with "1.prems" show ?thesis by simp
  next
    case True
    with "1.prems" have d: "i < length dfs" by (auto split: if_splits)
    from "1.prems" True d obtain out where
      out: "generateRecommendationDiff (differ env) (dfs ! i) (recs ! i) = Inr out"
      by (auto split: sum.splits)
    obtain outs' res where rest: "printDiffs env recs dfs (Suc i) = (outs', res)"
      by (cases "printDiffs env recs dfs (Suc i)") auto
    from "1.prems" True d out rest have "outs = out # outs'" "res = None"
      by (subst (asm) printDiffs.simps, simp)+
    with "1.IH"[OF True d out, of outs'] rest True show ?thesis by simp
  qed
qed

declare printDiffs.simps [simp del]

text \<open>
  C2, as amended. Every recommendation that \<open>PrintDockerfilesList\<close> collects and whose
  \<open>RecommendedConfig.Action\<close> is \<open>Noop\<close> has an empty \<open>RecommendedConfig.ConfigTemplate\<close>.
  The function generates a diff for every collected recommendation whatever its action:
  a run that ends without error or panic has printed exactly one diff per recommendation.
\<close>

theorem noop_template_empty_one_diff_each:
  assumes "collectedRecs env = Some recs"
  shows "noopHasEmptyTemplate recs
     \<and> (snd (PrintDockerfilesList env) = None
           \<longrightarrow> length (fst (PrintDockerfilesList env)) = length recs)"
proof -
  from assms obtain cfgs workdir seen dfs where
    c: "getConfigSet env = Inr cfgs" and w: "realWorkDir env = Inr workdir"
    and l: "dockerfileConfigs env workdir cfgs ({}, [], []) = Inr (seen, recs, dfs)"
    by (auto simp: collectedRecs_def split: sum.splits)
  have "noopHasEmptyTemplate recs"
    using dockerfileConfigs_noop[OF l] by (simp add: noopHasEmptyTemplate_def)
  moreover have "PrintDockerfilesList env = printDiffs env recs dfs 0"
    using c w l by (simp add: PrintDockerfilesList_def)
  ultimately show ?thesis
    using printDiffs_count[of env recs dfs 0 "fst (printDiffs env recs dfs 0)"]
    by (cases "printDiffs env recs dfs 0") auto
qed

lemma noop_recommendations:
  "getDockerfileRecommendations U
     \<lparr>AbsPath = ''/w/app/Dockerfile'', RelPath = ''app/Dockerfile'',
      Text = ''Testing what only flagged recommendation w/ no rec looks like''\<rparr>
   = Inr [noopRec]"
  by (simp add: getDockerfileRecommendations_def SuggestRecsViaStringEquals_def
        regexpRecommendations_def graphRecommendations_def StringEqualsRecs_def emptyOpt_def
        noopRec_def ToUpper_noop_template ToUpper_copy)

lemma noop_collected: "collectedRecs noopEnv = Some [noopRec]"
  by (simp add: collectedRecs_def noopEnv_def noop_recommendations Let_def)

lemma noop_printed:
  "PrintDockerfilesList noopEnv
   = ([''diff --git app/Dockerfile.orig app/Dockerfile'' @ [CHR 0x0A]
       @ ''--- app/Dockerfile.orig'' @ [CHR 0x0A]
       @ ''+++ app/Dockerfile'' @ [CHR 0x0A]], None)"
  by (simp add: PrintDockerfilesList_def noopEnv_def noop_recommendations printDiffs.simps
       Let_def generateRecommendationDiff_def headerDiffer_def noopRec_def
       strip_match strip_no_match strip_Nil indexLineAt_def isCRLF_def)

theorem noop_template_empty_one_diff_each_witness:
  "collectedRecs noopEnv = Some [noopRec] \<and> noopHasEmptyTemplate [noopRec]
   \<and> length (fst (PrintDockerfilesList noopEnv)) = 1"
  using noop_template_empty_one_diff_each[OF noop_collected] noop_collected
  by (simp add: noop_printed)

text \<open>
  C2, as the specification states it, fails: in the run \<open>noopEnv\<close> the only recommendation
  collected has the action \<open>Noop\<close>, and the run prints a diff for it.
\<close>

theorem noop_recommendation_gets_a_diff:
  "collectedRecs noopEnv = Some [noopRec]
   \<and> Action (RecommendedConfig noopRec) = Noop
   \<and> PrintDockerfilesList noopEnv
       = ([''diff --git app/Dockerfile.orig app/Dockerfile'' @ [CHR 0x0A]
           @ ''--- app/Dockerfile.orig'' @ [CHR 0x0A]
           @ ''+++ app/Dockerfile'' @ [CHR 0x0A]], None)"
  by (simp add: noop_collected noop_printed noopRec_def)

subsection \<open>The stub strategies\<close>

text \<open>
  C9. \<open>regexpRecommendations\<close> and \<open>graphRecommendations\<close> return an empty list and no
  error, so \<open>getDockerfileRecommendations\<close> returns exactly what the string-equals matcher
  returns on the catalog \<open>StringEqualsRecs\<close>.
\<close>

theorem stub_strategies_are_inert:
  "regexpRecommendations = Inr [] \<and> graphRecommendations = Inr []
   \<and> getDockerfileRecommendations U d = SuggestRecsViaStringEquals U StringEqualsRecs d"
  by (simp add: regexpRecommendations_def graphRecommendations_def
        getDockerfileRecommendations_def SuggestRecsViaStringEquals_def)

subsection \<open>\<open>Action.String\<close>\<close>

text \<open>
  C10. \<open>Action.String\<close> maps \<open>Replace\<close>, \<open>Add\<close>, \<open>Delete\<close>, \<open>Noop\<close> (the values 0 to 3) to
  their names, and it is undefined (the array index is out of range) exactly for the
  values outside 0 to 3.
\<close>

theorem Action_String_defined:
  "Replace = 0 \<and> Add = 1 \<and> Delete = 2 \<and> Noop = 3
   \<and> Action_String Replace = Some ''Replace'' \<and> Action_String Add = Some ''Add''
   \<and> Action_String Delete = Some ''Delete'' \<and> Action_String Noop = Some ''Noop''
   \<and> (\<forall>a. (Action_String a = None) = (\<not> (0 \<le> a \<and> a \<le> 3)))
   \<and> (\<forall>a. (\<exists>name. Action_String a = Some name) = (0 \<le> a \<and> a \<le> 3))"
  by (auto simp add: Action_String_def Replace_def Add_def Delete_def Noop_def)

section \<open>Properties of the orchestrator\<close>

subsection \<open>A run stops at the first call that fails\<close>

lemma traceFits_Inr: "traceFits env (Inr x) tr = list_all (\<lambda>ev. callError env ev = None) tr"
  by (simp add: traceFits_def)

lemma traceFits_Inl: "traceFits env (Inl err) tr = failsAtEnd env err tr"
  by (simp add: traceFits_def)

lemma failsAtEnd_single: "callError env ev = Some err \<Longrightarrow> failsAtEnd env err [ev]"
  by (simp add: failsAtEnd_def)

lemma failsAtEnd_Cons:
  "callError env ev = None \<Longrightarrow> failsAtEnd env err tr \<Longrightarrow> failsAtEnd env err (ev # tr)"
  by (auto simp: failsAtEnd_def)

lemma failsAtEnd_append:
  "list_all (\<lambda>ev. callError env ev = None) tr1 \<Longrightarrow> failsAtEnd env err tr2
     \<Longrightarrow> failsAtEnd env err (tr1 @ tr2)"
  by (auto simp: failsAtEnd_def butlast_append)

lemma traceFits_Cons:
  "callError env ev = None \<Longrightarrow> traceFits env res tr \<Longrightarrow> traceFits env res (ev # tr)"
  by (cases res) (auto simp: traceFits_def failsAtEnd_Cons)

lemma traceFits_append:
  "list_all (\<lambda>ev. callError env ev = None) tr1 \<Longrightarrow> traceFits env res tr2
     \<Longrightarrow> traceFits env res (tr1 @ tr2)"
  by (cases res) (auto simp: traceFits_def failsAtEnd_append)

lemma artifactsLoop_traceFits:
  "artifactsLoop env workdir k as seen depMap = (res, tr) \<Longrightarrow> traceFits env res tr"
proof (induction as arbitrary: seen depMap res tr)
  case Nil
  then show ?case by (auto simp: traceFits_def)
next
  case (Cons a as)
  show ?case
  proof (cases "DockerArtifact a")
    case None
    with Cons show ?thesis by simp
  next
    case (Some p)
    let ?ws = "Join env [workdir, Workspace a]"
    let ?fp = "Join env [?ws, p]"
    show ?thesis
    proof (cases "?fp \<in> seen")
      case True
      with Cons Some show ?thesis by (simp add: Let_def)
    next
      case False
      show ?thesis
      proof (cases "GetDependencies env ?ws ?fp")
        case (Inl err)
        with Cons.prems Some False show ?thesis
          by (auto simp: Let_def traceFits_def failsAtEnd_def)
      next
        case (Inr deps)
        obtain res' tr' where r: "artifactsLoop env workdir k as (insert ?fp seen)
            (depMap(?fp \<mapsto> deps)) = (res', tr')"
          by (cases "artifactsLoop env workdir k as (insert ?fp seen) (depMap(?fp \<mapsto> deps))")
        from Cons.prems Some False Inr r have "res = res'" "tr = EvGetDeps k ?ws ?fp # tr'"
          by (simp_all add: Let_def)
        moreover have "callError env (EvGetDeps k ?ws ?fp) = None" using Inr by simp
        ultimately show ?thesis using Cons.IH[OF r] by (simp add: traceFits_Cons)
      qed
    qed
  qed
qed

lemma lintersLoop_traceFits:
  "lintersLoop env k inputs rs results = (res, tr) \<Longrightarrow> traceFits env res tr"
proof (induction rs arbitrary: results res tr)
  case Nil
  then show ?case by (auto simp: traceFits_def)
next
  case (Cons r rs)
  show ?case
  proof (cases "Lint env r inputs (skaffoldYamlRules env)")
    case (Inl err)
    with Cons.prems have "res = Inl err" "tr = [EvLint k r inputs]" by simp_all
    then show ?thesis using Inl by (simp add: traceFits_def failsAtEnd_def)
  next
    case (Inr recs)
    obtain res' tr' where r: "lintersLoop env k inputs rs (results @ recs) = (res', tr')"
      by (cases "lintersLoop env k inputs rs (results @ recs)")
    from Cons.prems Inr r have "res = res'" "tr = EvLint k r inputs # tr'" by simp_all
    moreover have "callError env (EvLint k r inputs) = None" using Inr by simp
    ultimately show ?thesis using Cons.IH[OF r] by (simp add: traceFits_Cons)
  qed
qed

lemma traceFits_Inl_conv: "traceFits env (Inl err :: error + 'a) tr \<Longrightarrow> traceFits env (Inl err :: error + 'b) tr"
  by (simp add: traceFits_def)

lemma configsLoop_traceFits:
  "configsLoop env workdir k cs l seen depMap = (res, tr) \<Longrightarrow> traceFits env res tr"
proof (induction cs arbitrary: k l seen depMap res tr)
  case Nil
  then show ?case by (auto simp: traceFits_def)
next
  case (Cons c cs)
  let ?rd = "EvReadFile k (SourceFile c)"
  show ?case
  proof (cases "ReadFile env (SourceFile c)")
    case (Inl err)
    with Cons.prems show ?thesis by (auto simp: traceFits_def failsAtEnd_def)
  next
    case (Inr b)
    then have okrd: "callError env ?rd = None" by simp
    obtain res1 tr1 where a: "artifactsLoop env workdir k (Artifacts c) seen depMap = (res1, tr1)"
      by (cases "artifactsLoop env workdir k (Artifacts c) seen depMap")
    note f1 = artifactsLoop_traceFits[OF a]
    show ?thesis
    proof (cases res1)
      case (Inl err)
      with Cons.prems Inr a have "res = Inl err" "tr = ?rd # tr1" by (simp_all add: Let_def)
      moreover have "failsAtEnd env err tr1" using f1 Inl by (simp add: traceFits_def)
      ultimately show ?thesis using failsAtEnd_Cons[OF okrd] by (simp add: traceFits_def)
    next
      case r1: (Inr sd)
      obtain seen' depMap' where sd: "sd = (seen', depMap')" by (cases sd)
      let ?inp = "\<lparr>ConfigFile = \<lparr>cfAbsPath = SourceFile c,
                      cfRelPath = TrimPrefix (SourceFile c) workdir, cfText = b\<rparr>,
                   DockerfileToDepMap = depMap', SkaffoldConfig = c\<rparr>"
      obtain res2 tr2 where li: "lintersLoop env k ?inp SkaffoldYamlLinters [] = (res2, tr2)"
        by (cases "lintersLoop env k ?inp SkaffoldYamlLinters []")
      note f2 = lintersLoop_traceFits[OF li]
      have ok1: "list_all (\<lambda>ev. callError env ev = None) tr1" using f1 r1 by (simp add: traceFits_def)
      show ?thesis
      proof (cases res2)
        case (Inl err)
        with Cons.prems Inr a r1 sd li have "res = Inl err" "tr = ?rd # tr1 @ tr2"
          by (simp_all add: Let_def)
        moreover have "traceFits env (Inl err :: error + 'a list \<times> string set \<times> (string \<rightharpoonup> string list)) tr2"
          using f2 Inl by (simp add: traceFits_def)
        ultimately show ?thesis using traceFits_Cons[OF okrd traceFits_append[OF ok1]] by blast
      next
        case r2: (Inr results)
        obtain res3 tr3 where co: "configsLoop env workdir (Suc k) cs (l @ results) seen' depMap'
            = (res3, tr3)"
          by (cases "configsLoop env workdir (Suc k) cs (l @ results) seen' depMap'")
        from Cons.prems Inr a r1 sd li r2 co have "res = res3" "tr = ?rd # tr1 @ tr2 @ tr3"
          by (simp_all add: Let_def)
        moreover have "list_all (\<lambda>ev. callError env ev = None) tr2" using f2 r2 by (simp add: traceFits_def)
        moreover have "traceFits env res3 (tr1 @ tr2 @ tr3)"
          using ok1 \<open>list_all (\<lambda>ev. callError env ev = None) tr2\<close> Cons.IH[OF co]
          by (simp add: traceFits_append)
        ultimately show ?thesis using traceFits_Cons[OF okrd] by blast
      qed
    qed
  qed
qed

lemma failed_call_is_last:
  assumes "traceFits env res tr" and "ev \<in> set tr" and "callError env ev = Some err"
  shows "res = Inl err \<and> tr \<noteq> [] \<and> last tr = ev"
proof (cases res)
  case (Inr x)
  with assms show ?thesis by (auto simp: traceFits_def list_all_iff)
next
  case (Inl e)
  with assms(1) have ne: "tr \<noteq> []" and la: "callError env (last tr) = Some e"
    and bl: "\<forall>x\<in>set (butlast tr). callError env x = None"
    by (auto simp: traceFits_def failsAtEnd_def list_all_iff)
  have "ev \<notin> set (butlast tr)" using bl assms(3) by auto
  moreover have "set tr = insert (last tr) (set (butlast tr))"
    using ne by (metis append_butlast_last_id rotate1.simps(2) set_rotate1 list.simps(15))
  ultimately have "ev = last tr" using assms(2) by auto
  with la assms(3) Inl ne show ?thesis by simp
qed

lemma lintRun_traceFits: "traceFits env (fst (lintRun env)) (snd (lintRun env)) \<or> snd (lintRun env) = []"
proof (cases "getConfigSet env")
  case (Inl err)
  then show ?thesis by (simp add: lintRun_def)
next
  case (Inr cfgs)
  show ?thesis
  proof (cases "realWorkDir env")
    case (Inl err)
    with Inr show ?thesis by (simp add: lintRun_def)
  next
    case wd: (Inr workdir)
    have "lintRun env = configsLoop env workdir 0 cfgs [] {} Map.empty"
      using Inr wd by (simp add: lintRun_def)
    then show ?thesis using configsLoop_traceFits[of env workdir 0 cfgs "[]" "{}" Map.empty]
      by (cases "configsLoop env workdir 0 cfgs [] {} Map.empty") auto
  qed
qed

lemma failed_call_ends_run:
  assumes "ev \<in> set (calls env)" and "callError env ev = Some err"
  shows "GetSkaffoldYamlsLintResults env = Inl err \<and> calls env \<noteq> [] \<and> last (calls env) = ev"
proof -
  from assms(1) have "snd (lintRun env) \<noteq> []" by (auto simp: calls_def)
  with lintRun_traceFits[of env] have "traceFits env (fst (lintRun env)) (snd (lintRun env))" by simp
  from failed_call_is_last[OF this] assms
  have "fst (lintRun env) = Inl err \<and> snd (lintRun env) \<noteq> [] \<and> last (snd (lintRun env)) = ev"
    by (simp add: calls_def)
  then show ?thesis by (simp add: GetSkaffoldYamlsLintResults_def calls_def)
qed

subsection \<open>The order of the calls, and what a linter sees\<close>

lemma artifactsLoop_events:
  "artifactsLoop env workdir k as seen depMap = (res, tr) \<Longrightarrow>
     \<forall>ev\<in>set tr. \<exists>ws fp. ev = EvGetDeps k ws fp"
proof (induction as arbitrary: seen depMap res tr)
  case Nil
  then show ?case by auto
next
  case (Cons a as)
  show ?case
  proof (cases "DockerArtifact a")
    case None
    with Cons show ?thesis by simp
  next
    case (Some p)
    let ?ws = "Join env [workdir, Workspace a]"
    let ?fp = "Join env [?ws, p]"
    show ?thesis
    proof (cases "?fp \<in> seen")
      case True
      with Cons Some show ?thesis by (simp add: Let_def)
    next
      case False
      show ?thesis
      proof (cases "GetDependencies env ?ws ?fp")
        case (Inl err)
        with Cons.prems Some False show ?thesis by (auto simp: Let_def)
      next
        case (Inr deps)
        obtain res' tr' where r: "artifactsLoop env workdir k as (insert ?fp seen)
            (depMap(?fp \<mapsto> deps)) = (res', tr')"
          by (cases "artifactsLoop env workdir k as (insert ?fp seen) (depMap(?fp \<mapsto> deps))")
        from Cons.prems Some False Inr r have "tr = EvGetDeps k ?ws ?fp # tr'"
          by (simp add: Let_def)
        then show ?thesis using Cons.IH[OF r] by auto
      qed
    qed
  qed
qed

lemma lintersLoop_events:
  "lintersLoop env k inputs rs results = (res, tr) \<Longrightarrow>
     \<forall>ev\<in>set tr. \<exists>r. ev = EvLint k r inputs"
proof (induction rs arbitrary: results res tr)
  case Nil
  then show ?case by auto
next
  case (Cons r rs)
  show ?case
  proof (cases "Lint env r inputs (skaffoldYamlRules env)")
    case (Inl err)
    with Cons.prems show ?thesis by auto
  next
    case (Inr recs)
    obtain res' tr' where r: "lintersLoop env k inputs rs (results @ recs) = (res', tr')"
      by (cases "lintersLoop env k inputs rs (results @ recs)")
    from Cons.prems Inr r have "tr = EvLint k r inputs # tr'" by simp
    then show ?thesis using Cons.IH[OF r] by auto
  qed
qed

lemma artifactsLoop_covers:
  "artifactsLoop env workdir k as seen depMap = (Inr (seen', depMap'), tr) \<Longrightarrow>
     seen \<subseteq> dom depMap \<Longrightarrow>
     seen' \<subseteq> dom depMap' \<and> dom depMap \<subseteq> dom depMap'
     \<and> (\<forall>a\<in>set as. \<forall>p. DockerArtifact a = Some p
           \<longrightarrow> dockerfilePath env workdir a p \<in> dom depMap')"
proof (induction as arbitrary: seen depMap tr)
  case Nil
  then show ?case by auto
next
  case (Cons a as)
  show ?case
  proof (cases "DockerArtifact a")
    case None
    with Cons show ?thesis by simp
  next
    case (Some p)
    let ?ws = "Join env [workdir, Workspace a]"
    let ?fp = "Join env [?ws, p]"
    have fp: "dockerfilePath env workdir a p = ?fp" by (simp add: dockerfilePath_def)
    show ?thesis
    proof (cases "?fp \<in> seen")
      case True
      with Cons.prems Some have "artifactsLoop env workdir k as seen depMap
          = (Inr (seen', depMap'), tr)" by (simp add: Let_def)
      from Cons.IH[OF this Cons.prems(2)] have ih: "seen' \<subseteq> dom depMap'"
        "dom depMap \<subseteq> dom depMap'"
        "\<forall>a\<in>set as. \<forall>p. DockerArtifact a = Some p
           \<longrightarrow> dockerfilePath env workdir a p \<in> dom depMap'" by blast+
      have "dockerfilePath env workdir a p \<in> dom depMap'"
        unfolding fp using True Cons.prems(2) ih(2) by (meson subsetD)
      with ih Some show ?thesis by simp
    next
      case False
      show ?thesis
      proof (cases "GetDependencies env ?ws ?fp")
        case (Inl err)
        with Cons.prems Some False show ?thesis by (auto simp: Let_def)
      next
        case (Inr deps)
        obtain res' tr' where r: "artifactsLoop env workdir k as (insert ?fp seen)
            (depMap(?fp \<mapsto> deps)) = (res', tr')"
          by (cases "artifactsLoop env workdir k as (insert ?fp seen) (depMap(?fp \<mapsto> deps))")
        from Cons.prems(1) Some False Inr r have "res' = Inr (seen', depMap')"
          by (simp add: Let_def)
        with r have r': "artifactsLoop env workdir k as (insert ?fp seen)
            (depMap(?fp \<mapsto> deps)) = (Inr (seen', depMap'), tr')" by simp
        have "insert ?fp seen \<subseteq> dom (depMap(?fp \<mapsto> deps))" using Cons.prems(2) by auto
        from Cons.IH[OF r' this] have ih: "seen' \<subseteq> dom depMap'"
          "dom (depMap(?fp \<mapsto> deps)) \<subseteq> dom depMap'"
          "\<forall>a\<in>set as. \<forall>p. DockerArtifact a = Some p
             \<longrightarrow> dockerfilePath env workdir a p \<in> dom depMap'" by blast+
        have d: "dom (depMap(?fp \<mapsto> deps)) = insert ?fp (dom depMap)" by simp
        have "dom depMap \<subseteq> dom depMap'" "?fp \<in> dom depMap'"
          using ih(2) unfolding d by blast+
        with ih(1,3) Some fp show ?thesis by simp
      qed
    qed
  qed
qed

lemma rank_facts:
  "callRank (EvGetDeps k ws fp) = 3 * k + 1" "callRank (EvLint k r inp) = 3 * k + 2"
  by simp_all

lemma configsLoop_order:
  "configsLoop env workdir k cs l seen depMap = (res, tr) \<Longrightarrow>
     sorted (map callRank tr) \<and> (\<forall>ev\<in>set tr. 3 * k \<le> callRank ev)"
proof (induction cs arbitrary: k l seen depMap res tr)
  case Nil
  then show ?case by auto
next
  case (Cons c cs)
  let ?rd = "EvReadFile k (SourceFile c)"
  show ?case
  proof (cases "ReadFile env (SourceFile c)")
    case (Inl err)
    with Cons.prems show ?thesis by auto
  next
    case (Inr b)
    obtain res1 tr1 where a: "artifactsLoop env workdir k (Artifacts c) seen depMap = (res1, tr1)"
      by (cases "artifactsLoop env workdir k (Artifacts c) seen depMap")
    have e1: "\<forall>ev\<in>set tr1. callRank ev = 3 * k + 1"
      using artifactsLoop_events[OF a] by auto
    then have s1: "sorted (map callRank tr1)"
      by (induction tr1) auto
    show ?thesis
    proof (cases res1)
      case (Inl err)
      with Cons.prems Inr a have "tr = ?rd # tr1" by (simp add: Let_def)
      with e1 s1 show ?thesis by auto
    next
      case r1: (Inr sd)
      obtain seen' depMap' where sd: "sd = (seen', depMap')" by (cases sd)
      let ?inp = "\<lparr>ConfigFile = \<lparr>cfAbsPath = SourceFile c,
                      cfRelPath = TrimPrefix (SourceFile c) workdir, cfText = b\<rparr>,
                   DockerfileToDepMap = depMap', SkaffoldConfig = c\<rparr>"
      obtain res2 tr2 where li: "lintersLoop env k ?inp SkaffoldYamlLinters [] = (res2, tr2)"
        by (cases "lintersLoop env k ?inp SkaffoldYamlLinters []")
      have e2: "\<forall>ev\<in>set tr2. callRank ev = 3 * k + 2"
        using lintersLoop_events[OF li] by auto
      then have s2: "sorted (map callRank tr2)"
        by (induction tr2) auto
      have s12: "sorted (map callRank (?rd # tr1 @ tr2))"
        using e1 e2 s1 s2 by (auto simp: sorted_append)
      show ?thesis
      proof (cases res2)
        case (Inl err)
        with Cons.prems Inr a r1 sd li have "tr = ?rd # tr1 @ tr2" by (simp add: Let_def)
        with s12 e1 e2 show ?thesis by auto
      next
        case r2: (Inr results)
        obtain res3 tr3 where co: "configsLoop env workdir (Suc k) cs (l @ results) seen' depMap'
            = (res3, tr3)"
          by (cases "configsLoop env workdir (Suc k) cs (l @ results) seen' depMap'")
        from Cons.prems Inr a r1 sd li r2 co have t: "tr = (?rd # tr1 @ tr2) @ tr3"
          by (simp add: Let_def)
        from Cons.IH[OF co] have s3: "sorted (map callRank tr3)"
          and e3: "\<forall>ev\<in>set tr3. 3 * Suc k \<le> callRank ev" by auto
        have "sorted (map callRank ((?rd # tr1 @ tr2) @ tr3))"
          unfolding map_append sorted_append using s12 s3 e1 e2 e3 by fastforce
        moreover have "\<forall>ev\<in>set ((?rd # tr1 @ tr2) @ tr3). 3 * k \<le> callRank ev"
          using e1 e2 e3 by fastforce
        ultimately show ?thesis using t by simp
      qed
    qed
  qed
qed

lemma configsLoop_covers:
  "configsLoop env workdir k cs l seen depMap = (res, tr) \<Longrightarrow> seen \<subseteq> dom depMap \<Longrightarrow>
     EvLint j r inp \<in> set tr \<Longrightarrow>
     k \<le> j \<and> j - k < length cs \<and> SkaffoldConfig inp = cs ! (j - k)
     \<and> dom depMap \<subseteq> dom (DockerfileToDepMap inp)
     \<and> (\<forall>i\<le>j - k. \<forall>a\<in>set (Artifacts (cs ! i)). \<forall>p. DockerArtifact a = Some p
           \<longrightarrow> dockerfilePath env workdir a p \<in> dom (DockerfileToDepMap inp))"
proof (induction cs arbitrary: k l seen depMap res tr)
  case Nil
  then show ?case by auto
next
  case (Cons c cs)
  let ?rd = "EvReadFile k (SourceFile c)"
  show ?case
  proof (cases "ReadFile env (SourceFile c)")
    case (Inl err)
    with Cons.prems show ?thesis by auto
  next
    case (Inr b)
    obtain res1 tr1 where a: "artifactsLoop env workdir k (Artifacts c) seen depMap = (res1, tr1)"
      by (cases "artifactsLoop env workdir k (Artifacts c) seen depMap")
    have e1: "EvLint j r inp \<notin> set tr1" using artifactsLoop_events[OF a] by auto
    show ?thesis
    proof (cases res1)
      case (Inl err)
      with Cons.prems Inr a have "tr = ?rd # tr1" by (simp add: Let_def)
      with e1 Cons.prems(3) show ?thesis by auto
    next
      case r1: (Inr sd)
      obtain seen' depMap' where sd: "sd = (seen', depMap')" by (cases sd)
      let ?inp = "\<lparr>ConfigFile = \<lparr>cfAbsPath = SourceFile c,
                      cfRelPath = TrimPrefix (SourceFile c) workdir, cfText = b\<rparr>,
                   DockerfileToDepMap = depMap', SkaffoldConfig = c\<rparr>"
      from a r1 sd have a': "artifactsLoop env workdir k (Artifacts c) seen depMap
          = (Inr (seen', depMap'), tr1)" by simp
      note cov = artifactsLoop_covers[OF a' Cons.prems(2)]
      obtain res2 tr2 where li: "lintersLoop env k ?inp SkaffoldYamlLinters [] = (res2, tr2)"
        by (cases "lintersLoop env k ?inp SkaffoldYamlLinters []")
      have here: "EvLint j r inp \<in> set tr2 \<Longrightarrow> ?thesis"
      proof -
        assume "EvLint j r inp \<in> set tr2"
        with lintersLoop_events[OF li] have "j = k" "inp = ?inp" by auto
        with cov show ?thesis by simp
      qed
      show ?thesis
      proof (cases res2)
        case (Inl err)
        with Cons.prems Inr a r1 sd li have "tr = ?rd # tr1 @ tr2" by (simp add: Let_def)
        with e1 Cons.prems(3) here show ?thesis by auto
      next
        case r2: (Inr results)
        obtain res3 tr3 where co: "configsLoop env workdir (Suc k) cs (l @ results) seen' depMap'
            = (res3, tr3)"
          by (cases "configsLoop env workdir (Suc k) cs (l @ results) seen' depMap'")
        from Cons.prems Inr a r1 sd li r2 co have t: "tr = ?rd # tr1 @ tr2 @ tr3"
          by (simp add: Let_def)
        show ?thesis
        proof (cases "EvLint j r inp \<in> set tr2")
          case True
          then show ?thesis by (rule here)
        next
          case False
          with t e1 Cons.prems(3) have in3: "EvLint j r inp \<in> set tr3" by auto
          from cov have s': "seen' \<subseteq> dom depMap'" by simp
          from Cons.IH[OF co s' in3] have ih: "Suc k \<le> j" "j - Suc k < length cs"
            "SkaffoldConfig inp = cs ! (j - Suc k)"
            "dom depMap' \<subseteq> dom (DockerfileToDepMap inp)"
            "\<forall>i\<le>j - Suc k. \<forall>a\<in>set (Artifacts (cs ! i)). \<forall>p. DockerArtifact a = Some p
               \<longrightarrow> dockerfilePath env workdir a p \<in> dom (DockerfileToDepMap inp)"
            by auto
          from ih(1) obtain m where m: "j - k = Suc m" "j - Suc k = m"
            by (metis Suc_diff_le diff_Suc_Suc)
          have "\<forall>i\<le>j - k. \<forall>a\<in>set (Artifacts ((c # cs) ! i)). \<forall>p. DockerArtifact a = Some p
               \<longrightarrow> dockerfilePath env workdir a p \<in> dom (DockerfileToDepMap inp)"
          proof (intro allI impI ballI)
            fix i a p assume i: "i \<le> j - k" and am: "a \<in> set (Artifacts ((c # cs) ! i))"
              and p: "DockerArtifact a = Some p"
            show "dockerfilePath env workdir a p \<in> dom (DockerfileToDepMap inp)"
            proof (cases i)
              case 0
              with am p cov have "dockerfilePath env workdir a p \<in> dom depMap'" by simp
              with ih(4) show ?thesis by blast
            next
              case (Suc i')
              with i m am p ih(5) show ?thesis by auto
            qed
          qed
          moreover have "dom depMap \<subseteq> dom (DockerfileToDepMap inp)"
            using cov ih(4) by (meson subset_trans)
          ultimately show ?thesis using ih m by auto
        qed
      qed
    qed
  qed
qed

lemma calls_sorted: "sorted (map callRank (calls env))"
proof (cases "getConfigSet env")
  case (Inl err)
  then show ?thesis by (simp add: lintRun_def calls_def)
next
  case (Inr cfgs)
  show ?thesis
  proof (cases "realWorkDir env")
    case (Inl err)
    with Inr show ?thesis by (simp add: lintRun_def calls_def)
  next
    case wd: (Inr workdir)
    have "lintRun env = configsLoop env workdir 0 cfgs [] {} Map.empty"
      using Inr wd by (simp add: lintRun_def)
    then show ?thesis using configsLoop_order[of env workdir 0 cfgs "[]" "{}" Map.empty]
      by (cases "configsLoop env workdir 0 cfgs [] {} Map.empty") (auto simp: calls_def)
  qed
qed

lemma sorted_last_max:
  "sorted (map f xs) \<Longrightarrow> x \<in> set xs \<Longrightarrow> f x \<le> f (last xs)"
proof (induction xs)
  case Nil
  then show ?case by simp
next
  case (Cons a xs)
  then show ?case by (cases xs) auto
qed

subsection \<open>The sample runs\<close>

lemma sample_sel [simp]:
  "getConfigSet (sampleEnv cfgs deps lint) = Inr cfgs"
  "realWorkDir (sampleEnv cfgs deps lint) = Inr ''/w''"
  "ReadFile (sampleEnv cfgs deps lint) p = Inr ''apiVersion: skaffold/v2beta26''"
  "Join (sampleEnv cfgs deps lint) = slashJoin"
  "GetDependencies (sampleEnv cfgs deps lint) = deps"
  "Lint (sampleEnv cfgs deps lint) = lint"
  by (simp_all add: sampleEnv_def)

lemma extractionFails_run:
  "lintRun extractionFailsEnv =
     (Inl (GoError ''extraction failed''),
      [EvReadFile 0 ''/w/a/skaffold.yaml'',
       EvGetDeps 0 ''/w/a'' ''/w/a/Dockerfile'',
       EvLint 0 RegExpLinter (inputsOf unitA [''/w/a/Dockerfile'' \<mapsto> [''a/main.py'']]),
       EvLint 0 YamlFieldLinter (inputsOf unitA [''/w/a/Dockerfile'' \<mapsto> [''a/main.py'']]),
       EvReadFile 1 ''/w/b/skaffold.yaml'',
       EvGetDeps 1 ''/w/b'' ''/w/b/Dockerfile''])"
  by (simp add: lintRun_def extractionFailsEnv_def unitA_def unitB_def Let_def
        SkaffoldYamlLinters_def depsOfAOnly_def lintReports_def inputsOf_def)

lemma ruleFails_run:
  "lintRun ruleFailsEnv =
     (Inl (GoError ''rule failed''),
      [EvReadFile 0 ''/w/a/skaffold.yaml'',
       EvGetDeps 0 ''/w/a'' ''/w/a/Dockerfile'',
       EvLint 0 RegExpLinter (inputsOf unitA [''/w/a/Dockerfile'' \<mapsto> [''/w/a/main.py'']])])"
  by (simp add: lintRun_def ruleFailsEnv_def unitA_def unitB_def Let_def
        SkaffoldYamlLinters_def depsOfAll_def lintRegExpFails_def inputsOf_def)

lemma shared_run:
  "lintRun sharedDockerfileEnv =
     (Inr ([''/w/a/skaffold.yaml'', ''/w/a/skaffold2.yaml''], {''/w/a/Dockerfile''},
           [''/w/a/Dockerfile'' \<mapsto> [''/w/a/main.py'']]),
      [EvReadFile 0 ''/w/a/skaffold.yaml'',
       EvGetDeps 0 ''/w/a'' ''/w/a/Dockerfile'',
       EvLint 0 RegExpLinter (inputsOf unitA [''/w/a/Dockerfile'' \<mapsto> [''/w/a/main.py'']]),
       EvLint 0 YamlFieldLinter (inputsOf unitA [''/w/a/Dockerfile'' \<mapsto> [''/w/a/main.py'']]),
       EvReadFile 1 ''/w/a/skaffold2.yaml'',
       EvLint 1 RegExpLinter (inputsOf unitA2 [''/w/a/Dockerfile'' \<mapsto> [''/w/a/main.py'']]),
       EvLint 1 YamlFieldLinter (inputsOf unitA2 [''/w/a/Dockerfile'' \<mapsto> [''/w/a/main.py'']])])"
  by (simp add: lintRun_def sharedDockerfileEnv_def unitA_def unitA2_def Let_def
        SkaffoldYamlLinters_def depsOfAll_def lintReports_def inputsOf_def)

subsection \<open>Extraction failures\<close>

text \<open>
  C4, as amended. The orchestrator works through the configuration units one after
  another (the calls of a run are ordered by unit and, within a unit, reading the file,
  then extraction, then linting). Every \<open>Lint\<close> call therefore gets a side-table that
  holds the Dockerfile of every Docker artifact of its own unit and of all earlier
  units. A dependency extraction that fails is the last call of the run: the run returns
  its error, and the only rules evaluated are those of earlier units.
\<close>

theorem side_table_built_unit_by_unit:
  assumes "getConfigSet env = Inr cfgs" and "realWorkDir env = Inr workdir"
  shows "sorted (map callRank (calls env))
    \<and> (\<forall>j r inputs. EvLint j r inputs \<in> set (calls env) \<longrightarrow>
          j < length cfgs
          \<and> (\<forall>i\<le>j. \<forall>a\<in>set (Artifacts (cfgs ! i)). \<forall>p. DockerArtifact a = Some p
                \<longrightarrow> dockerfilePath env workdir a p \<in> dom (DockerfileToDepMap inputs)))
    \<and> (\<forall>k ws fp err. EvGetDeps k ws fp \<in> set (calls env)
            \<and> GetDependencies env ws fp = Inl err \<longrightarrow>
          GetSkaffoldYamlsLintResults env = Inl err
          \<and> last (calls env) = EvGetDeps k ws fp
          \<and> (\<forall>j r inputs. EvLint j r inputs \<in> set (calls env) \<longrightarrow> j < k))"
proof -
  have run: "lintRun env = configsLoop env workdir 0 cfgs [] {} Map.empty"
    using assms by (simp add: lintRun_def)
  obtain res tr where c: "configsLoop env workdir 0 cfgs [] {} Map.empty = (res, tr)"
    by (cases "configsLoop env workdir 0 cfgs [] {} Map.empty")
  have tr: "calls env = tr" using run c by (simp add: calls_def)
  have covered: "j < length cfgs
      \<and> (\<forall>i\<le>j. \<forall>a\<in>set (Artifacts (cfgs ! i)). \<forall>p. DockerArtifact a = Some p
            \<longrightarrow> dockerfilePath env workdir a p \<in> dom (DockerfileToDepMap inputs))"
    if "EvLint j r inputs \<in> set (calls env)" for j r inputs
    using configsLoop_covers[OF c _ that[unfolded tr]] by simp
  have aborts: "GetSkaffoldYamlsLintResults env = Inl err
      \<and> last (calls env) = EvGetDeps k ws fp
      \<and> (\<forall>j r inputs. EvLint j r inputs \<in> set (calls env) \<longrightarrow> j < k)"
    if a: "EvGetDeps k ws fp \<in> set (calls env) \<and> GetDependencies env ws fp = Inl err"
    for k ws fp err
  proof -
    from a have ce: "callError env (EvGetDeps k ws fp) = Some err" by simp
    from failed_call_ends_run[OF _ ce] a
    have r: "GetSkaffoldYamlsLintResults env = Inl err" and l: "last (calls env) = EvGetDeps k ws fp"
      by simp_all
    have "j < k" if "EvLint j r inputs \<in> set (calls env)" for j r inputs
      using sorted_last_max[OF calls_sorted that] l by simp
    with r l show ?thesis by blast
  qed
  show ?thesis using calls_sorted[of env] covered aborts by blast
qed

theorem side_table_built_unit_by_unit_witness:
  "sorted (map callRank (calls extractionFailsEnv))
   \<and> dockerfilePath extractionFailsEnv ''/w'' (hd (Artifacts unitA)) ''Dockerfile''
        \<in> dom [''/w/a/Dockerfile'' \<mapsto> [''a/main.py'']]
   \<and> GetSkaffoldYamlsLintResults extractionFailsEnv = Inl (GoError ''extraction failed'')
   \<and> last (calls extractionFailsEnv) = EvGetDeps 1 ''/w/b'' ''/w/b/Dockerfile''"
proof -
  have c: "getConfigSet extractionFailsEnv = Inr [unitA, unitB]"
    and w: "realWorkDir extractionFailsEnv = Inr ''/w''"
    by (simp_all add: extractionFailsEnv_def)
  note t = side_table_built_unit_by_unit[OF c w]
  have cs: "calls extractionFailsEnv = snd (lintRun extractionFailsEnv)" by (simp add: calls_def)
  have l: "EvLint 0 RegExpLinter (inputsOf unitA [''/w/a/Dockerfile'' \<mapsto> [''a/main.py'']])
      \<in> set (calls extractionFailsEnv)"
    by (simp add: cs extractionFails_run)
  have g: "EvGetDeps 1 ''/w/b'' ''/w/b/Dockerfile'' \<in> set (calls extractionFailsEnv)
      \<and> GetDependencies extractionFailsEnv ''/w/b'' ''/w/b/Dockerfile''
            = Inl (GoError ''extraction failed'')"
    by (simp add: cs extractionFails_run) (simp add: extractionFailsEnv_def depsOfAOnly_def)
  from t have t1: "sorted (map callRank (calls extractionFailsEnv))" by blast
  from t l have t2: "\<forall>i\<le>0. \<forall>a\<in>set (Artifacts ([unitA, unitB] ! i)). \<forall>p. DockerArtifact a = Some p
      \<longrightarrow> dockerfilePath extractionFailsEnv ''/w'' a p
            \<in> dom (DockerfileToDepMap (inputsOf unitA [''/w/a/Dockerfile'' \<mapsto> [''a/main.py'']]))"
    by blast
  from t g have t3: "GetSkaffoldYamlsLintResults extractionFailsEnv = Inl (GoError ''extraction failed'')
      \<and> last (calls extractionFailsEnv) = EvGetDeps 1 ''/w/b'' ''/w/b/Dockerfile''"
    by blast
  from t2 have "dockerfilePath extractionFailsEnv ''/w'' (hd (Artifacts unitA)) ''Dockerfile''
        \<in> dom [''/w/a/Dockerfile'' \<mapsto> [''a/main.py'']]"
    by (simp add: unitA_def inputsOf_def)
  with t1 t3 show ?thesis by simp
qed

text \<open>
  C4, as the specification states it, fails: in the run \<open>extractionFailsEnv\<close> both linters
  are evaluated on the first unit, with a side-table that lacks the Dockerfile of the
  second unit, before the extraction for the second unit is attempted and fails.
\<close>

theorem rules_run_before_later_extraction:
  "calls extractionFailsEnv =
     [EvReadFile 0 ''/w/a/skaffold.yaml'',
      EvGetDeps 0 ''/w/a'' ''/w/a/Dockerfile'',
      EvLint 0 RegExpLinter (inputsOf unitA [''/w/a/Dockerfile'' \<mapsto> [''a/main.py'']]),
      EvLint 0 YamlFieldLinter (inputsOf unitA [''/w/a/Dockerfile'' \<mapsto> [''a/main.py'']]),
      EvReadFile 1 ''/w/b/skaffold.yaml'',
      EvGetDeps 1 ''/w/b'' ''/w/b/Dockerfile'']
   \<and> GetSkaffoldYamlsLintResults extractionFailsEnv = Inl (GoError ''extraction failed'')"
  by (simp add: calls_def GetSkaffoldYamlsLintResults_def extractionFails_run)

subsection \<open>Rule failures\<close>

text \<open>
  C5, as amended. When the \<open>Lint\<close> call of a linter fails, the failure is not isolated:
  the orchestrator returns that error and no results, and the failed call is the last
  call of the run, so no further linter and no further configuration unit is evaluated.
\<close>

theorem failed_rule_aborts_run:
  assumes "EvLint k r inputs \<in> set (calls env)"
    and "Lint env r inputs (skaffoldYamlRules env) = Inl err"
  shows "GetSkaffoldYamlsLintResults env = Inl err
     \<and> calls env \<noteq> [] \<and> last (calls env) = EvLint k r inputs"
  using failed_call_ends_run[OF assms(1), of err] assms(2) by simp

theorem failed_rule_aborts_run_witness:
  "GetSkaffoldYamlsLintResults ruleFailsEnv = Inl (GoError ''rule failed'')
   \<and> last (calls ruleFailsEnv)
       = EvLint 0 RegExpLinter (inputsOf unitA [''/w/a/Dockerfile'' \<mapsto> [''/w/a/main.py'']])"
  using failed_rule_aborts_run[of 0 RegExpLinter "inputsOf unitA [''/w/a/Dockerfile'' \<mapsto> [''/w/a/main.py'']]"
      ruleFailsEnv "GoError ''rule failed''"]
  by (simp add: calls_def ruleFails_run) (simp add: ruleFailsEnv_def lintRegExpFails_def)

text \<open>
  C5, as the specification states it, fails: in the run \<open>ruleFailsEnv\<close> the first linter
  fails on the first unit; the second linter, which would report a result, is never
  called, the second unit is never read, and the run returns the error alone.
\<close>

theorem rule_failure_is_not_isolated:
  "calls ruleFailsEnv =
     [EvReadFile 0 ''/w/a/skaffold.yaml'',
      EvGetDeps 0 ''/w/a'' ''/w/a/Dockerfile'',
      EvLint 0 RegExpLinter (inputsOf unitA [''/w/a/Dockerfile'' \<mapsto> [''/w/a/main.py'']])]
   \<and> GetSkaffoldYamlsLintResults ruleFailsEnv = Inl (GoError ''rule failed'')
   \<and> lintRegExpFails YamlFieldLinter
         (inputsOf unitA [''/w/a/Dockerfile'' \<mapsto> [''/w/a/main.py'']])
         (skaffoldYamlRules ruleFailsEnv) = Inr [''/w/a/skaffold.yaml'']"
  by (simp add: calls_def GetSkaffoldYamlsLintResults_def ruleFails_run)
     (simp add: lintRegExpFails_def inputsOf_def unitA_def)

subsection \<open>One extraction for each Dockerfile path\<close>

lemma unseen_Nil: "unseenPaths seen [] = []"
  by (simp add: unseenPaths_def)

lemma unseen_empty: "unseenPaths {} ps = dedupByPath ps"
  by (simp add: unseenPaths_def)

lemma unseen_Cons_seen: "snd p \<in> seen \<Longrightarrow> unseenPaths seen (p # ps) = unseenPaths seen ps"
  by (simp add: unseenPaths_def)

lemma unseen_Cons_new:
  "snd p \<notin> seen \<Longrightarrow> unseenPaths seen (p # ps) = p # unseenPaths (insert (snd p) seen) ps"
proof -
  assume a: "snd p \<notin> seen"
  have "filter (\<lambda>q. snd q \<noteq> snd p) (filter (\<lambda>q. snd q \<notin> seen) ps)
      = filter (\<lambda>q. snd q \<notin> insert (snd p) seen) ps"
    by (induction ps) auto
  with a show ?thesis by (simp add: unseenPaths_def)
qed

lemma unseen_append:
  "unseenPaths seen (A @ B) = unseenPaths seen A @ unseenPaths (seen \<union> snd ` set A) B"
proof (induction A arbitrary: seen)
  case Nil
  then show ?case by (simp add: unseen_Nil)
next
  case (Cons p A)
  show ?case
  proof (cases "snd p \<in> seen")
    case True
    then have "seen \<union> snd ` set (p # A) = seen \<union> snd ` set A" by auto
    with True Cons.IH[of seen] show ?thesis
      by (simp add: unseen_Cons_seen)
  next
    case False
    have "insert (snd p) seen \<union> snd ` set A = seen \<union> snd ` set (p # A)" by auto
    with False Cons.IH[of "insert (snd p) seen"] show ?thesis
      by (simp add: unseen_Cons_new)
  qed
qed

lemma set_dedupByPath: "snd ` set (dedupByPath ps) = snd ` set ps"
proof (induction ps rule: dedupByPath.induct)
  case 1
  then show ?case by simp
next
  case (2 p ps)
  have "snd ` set (filter (\<lambda>q. snd q \<noteq> snd p) ps) = snd ` set ps - {snd p}" by auto
  with 2 show ?case by auto
qed

lemma distinct_dedupByPath: "distinct (map snd (dedupByPath ps))"
proof (induction ps rule: dedupByPath.induct)
  case 1
  then show ?case by simp
next
  case (2 p ps)
  have "snd p \<notin> snd ` set (dedupByPath (filter (\<lambda>q. snd q \<noteq> snd p) ps))"
    unfolding set_dedupByPath by auto
  with 2 show ?case by simp
qed

lemma extractions_append: "extractions (xs @ ys) = extractions xs @ extractions ys"
  by (induction xs rule: extractions.induct) auto

lemma tableFrom_Cons: "tableFrom env m (q # ps) = tableFrom env (addDeps env m q) ps"
  by (simp add: tableFrom_def)

lemma tableFrom_append: "tableFrom env m (ps @ qs) = tableFrom env (tableFrom env m ps) qs"
  by (simp add: tableFrom_def)

lemma artifactsLoop_extracts:
  "artifactsLoop env workdir k as seen depMap = (res, tr) \<Longrightarrow>
     prefix (extractions tr) (unseenPaths seen (artifactPaths env workdir as))
     \<and> (\<forall>seen' depMap'. res = Inr (seen', depMap') \<longrightarrow>
           extractions tr = unseenPaths seen (artifactPaths env workdir as)
           \<and> seen' = seen \<union> snd ` set (artifactPaths env workdir as)
           \<and> depMap' = tableFrom env depMap (unseenPaths seen (artifactPaths env workdir as)))"
proof (induction as arbitrary: seen depMap res tr)
  case Nil
  then show ?case by (auto simp: artifactPaths_def tableFrom_def unseen_Nil)
next
  case (Cons a as)
  show ?case
  proof (cases "DockerArtifact a")
    case None
    then have "artifactPaths env workdir (a # as) = artifactPaths env workdir as"
      by (simp add: artifactPaths_def)
    with Cons None show ?thesis by simp
  next
    case (Some p)
    let ?ws = "Join env [workdir, Workspace a]"
    let ?fp = "Join env [?ws, p]"
    have ap: "artifactPaths env workdir (a # as) = (?ws, ?fp) # artifactPaths env workdir as"
      using Some by (simp add: artifactPaths_def dockerfilePath_def)
    show ?thesis
    proof (cases "?fp \<in> seen")
      case True
      then have u: "unseenPaths seen (artifactPaths env workdir (a # as))
          = unseenPaths seen (artifactPaths env workdir as)"
        unfolding ap by (simp add: unseen_Cons_seen)
      have s: "seen \<union> snd ` set (artifactPaths env workdir (a # as))
          = seen \<union> snd ` set (artifactPaths env workdir as)"
        unfolding ap using True by auto
      from Cons.prems Some True have "artifactsLoop env workdir k as seen depMap = (res, tr)"
        by (simp add: Let_def)
      from Cons.IH[OF this] show ?thesis unfolding u s .
    next
      case False
      then have u: "unseenPaths seen (artifactPaths env workdir (a # as))
          = (?ws, ?fp) # unseenPaths (insert ?fp seen) (artifactPaths env workdir as)"
        unfolding ap using unseen_Cons_new[of "(?ws, ?fp)" seen] by simp
      have s: "seen \<union> snd ` set (artifactPaths env workdir (a # as))
          = insert ?fp seen \<union> snd ` set (artifactPaths env workdir as)"
        unfolding ap by auto
      show ?thesis
      proof (cases "GetDependencies env ?ws ?fp")
        case (Inl err)
        with Cons.prems Some False have "res = Inl err" "tr = [EvGetDeps k ?ws ?fp]"
          by (simp_all add: Let_def)
        then show ?thesis unfolding u by simp
      next
        case (Inr deps)
        obtain res' tr' where r: "artifactsLoop env workdir k as (insert ?fp seen)
            (depMap(?fp \<mapsto> deps)) = (res', tr')"
          by (cases "artifactsLoop env workdir k as (insert ?fp seen) (depMap(?fp \<mapsto> deps))")
        from Cons.prems Some False Inr r have rt: "res = res'" "tr = EvGetDeps k ?ws ?fp # tr'"
          by (simp_all add: Let_def)
        have ad: "addDeps env depMap (?ws, ?fp) = depMap(?fp \<mapsto> deps)"
          using Inr by (simp add: addDeps_def)
        from Cons.IH[OF r]
        have ih1: "prefix (extractions tr')
            (unseenPaths (insert ?fp seen) (artifactPaths env workdir as))"
          and ih2: "\<And>seen' depMap'. res' = Inr (seen', depMap') \<Longrightarrow>
            extractions tr' = unseenPaths (insert ?fp seen) (artifactPaths env workdir as)
            \<and> seen' = insert ?fp seen \<union> snd ` set (artifactPaths env workdir as)
            \<and> depMap' = tableFrom env (depMap(?fp \<mapsto> deps))
                  (unseenPaths (insert ?fp seen) (artifactPaths env workdir as))"
          by blast+
        have t: "tableFrom env depMap ((?ws, ?fp)
              # unseenPaths (insert ?fp seen) (artifactPaths env workdir as))
            = tableFrom env (depMap(?fp \<mapsto> deps))
                  (unseenPaths (insert ?fp seen) (artifactPaths env workdir as))"
          by (simp only: tableFrom_Cons ad)
        have e: "extractions tr = (?ws, ?fp) # extractions tr'" unfolding rt by simp
        show ?thesis
          unfolding u s e t rt(1) using ih1 ih2 by (simp only: prefix_code list.inject) blast
      qed
    qed
  qed
qed

lemma lintersLoop_extracts:
  "lintersLoop env k inputs rs results = (res, tr) \<Longrightarrow> extractions tr = []"
proof -
  assume "lintersLoop env k inputs rs results = (res, tr)"
  from lintersLoop_events[OF this] show ?thesis
    by (induction tr) auto
qed

lemma dockerPaths_Cons:
  "dockerPaths env workdir (c # cs)
     = artifactPaths env workdir (Artifacts c) @ dockerPaths env workdir cs"
  by (simp add: dockerPaths_def)

lemma configsLoop_extracts:
  "configsLoop env workdir k cs l seen depMap = (res, tr) \<Longrightarrow>
     prefix (extractions tr) (unseenPaths seen (dockerPaths env workdir cs))
     \<and> (\<forall>l' seen' depMap'. res = Inr (l', seen', depMap') \<longrightarrow>
           extractions tr = unseenPaths seen (dockerPaths env workdir cs)
           \<and> seen' = seen \<union> snd ` set (dockerPaths env workdir cs)
           \<and> depMap' = tableFrom env depMap (unseenPaths seen (dockerPaths env workdir cs)))"
proof (induction cs arbitrary: k l seen depMap res tr)
  case Nil
  then show ?case by (auto simp: dockerPaths_def tableFrom_def unseen_Nil)
next
  case (Cons c cs)
  let ?rd = "EvReadFile k (SourceFile c)"
  let ?A = "artifactPaths env workdir (Artifacts c)"
  let ?B = "dockerPaths env workdir cs"
  have u: "unseenPaths seen (dockerPaths env workdir (c # cs))
      = unseenPaths seen ?A @ unseenPaths (seen \<union> snd ` set ?A) ?B"
    unfolding dockerPaths_Cons by (rule unseen_append)
  show ?case
  proof (cases "ReadFile env (SourceFile c)")
    case (Inl err)
    with Cons.prems show ?thesis by auto
  next
    case (Inr b)
    obtain res1 tr1 where a: "artifactsLoop env workdir k (Artifacts c) seen depMap = (res1, tr1)"
      by (cases "artifactsLoop env workdir k (Artifacts c) seen depMap")
    note x1 = artifactsLoop_extracts[OF a]
    show ?thesis
    proof (cases res1)
      case (Inl err)
      with Cons.prems Inr a have "res = Inl err" "tr = ?rd # tr1" by (simp_all add: Let_def)
      with x1 show ?thesis unfolding u by (auto intro: prefix_order.trans)
    next
      case r1: (Inr sd)
      obtain seen' depMap' where sd: "sd = (seen', depMap')" by (cases sd)
      from x1 r1 sd have e1: "extractions tr1 = unseenPaths seen ?A"
        and s1: "seen' = seen \<union> snd ` set ?A"
        and d1: "depMap' = tableFrom env depMap (unseenPaths seen ?A)" by auto
      let ?inp = "\<lparr>ConfigFile = \<lparr>cfAbsPath = SourceFile c,
                      cfRelPath = TrimPrefix (SourceFile c) workdir, cfText = b\<rparr>,
                   DockerfileToDepMap = depMap', SkaffoldConfig = c\<rparr>"
      obtain res2 tr2 where li: "lintersLoop env k ?inp SkaffoldYamlLinters [] = (res2, tr2)"
        by (cases "lintersLoop env k ?inp SkaffoldYamlLinters []")
      note e2 = lintersLoop_extracts[OF li]
      show ?thesis
      proof (cases res2)
        case (Inl err)
        with Cons.prems Inr a r1 sd li have "res = Inl err" "tr = ?rd # tr1 @ tr2"
          by (simp_all add: Let_def)
        then show ?thesis unfolding u by (simp add: extractions_append e1 e2)
      next
        case r2: (Inr results)
        obtain res3 tr3 where co: "configsLoop env workdir (Suc k) cs (l @ results) seen' depMap'
            = (res3, tr3)"
          by (cases "configsLoop env workdir (Suc k) cs (l @ results) seen' depMap'")
        from Cons.prems Inr a r1 sd li r2 co have rt: "res = res3" "tr = ?rd # tr1 @ tr2 @ tr3"
          by (simp_all add: Let_def)
        have s: "seen \<union> snd ` set (dockerPaths env workdir (c # cs))
            = seen' \<union> snd ` set ?B"
          unfolding dockerPaths_Cons s1 by auto
        from Cons.IH[OF co] show ?thesis
          unfolding u rt s
          by (simp add: extractions_append e1 e2 s1[symmetric] d1 tableFrom_append)
      qed
    qed
  qed
qed

text \<open>
  C6. The extractions of a run are an initial part of the deduplicated list of Docker
  artifacts (of the references to one Dockerfile path only the first is kept), so no
  path is extracted twice; a run that succeeds has extracted every distinct path exactly
  once, and its side-table is the one built from the deduplicated list.
\<close>

theorem extraction_once_per_path:
  assumes "getConfigSet env = Inr cfgs" and "realWorkDir env = Inr workdir"
  shows "prefix (extractions (calls env)) (dedupByPath (dockerPaths env workdir cfgs))
    \<and> distinct (map snd (extractions (calls env)))
    \<and> (\<forall>l seen depMap. fst (lintRun env) = Inr (l, seen, depMap) \<longrightarrow>
          extractions (calls env) = dedupByPath (dockerPaths env workdir cfgs)
          \<and> snd ` set (extractions (calls env)) = snd ` set (dockerPaths env workdir cfgs)
          \<and> depMap = tableFrom env Map.empty (dedupByPath (dockerPaths env workdir cfgs)))"
proof -
  have run: "lintRun env = configsLoop env workdir 0 cfgs [] {} Map.empty"
    using assms by (simp add: lintRun_def)
  obtain res tr where c: "configsLoop env workdir 0 cfgs [] {} Map.empty = (res, tr)"
    by (cases "configsLoop env workdir 0 cfgs [] {} Map.empty")
  have tr: "calls env = tr" and res: "fst (lintRun env) = res" using run c by (simp_all add: calls_def)
  from configsLoop_extracts[OF c]
  have p: "prefix (extractions tr) (dedupByPath (dockerPaths env workdir cfgs))"
    and e: "\<forall>l' seen' depMap'. res = Inr (l', seen', depMap') \<longrightarrow>
           extractions tr = dedupByPath (dockerPaths env workdir cfgs)
           \<and> depMap' = tableFrom env Map.empty (dedupByPath (dockerPaths env workdir cfgs))"
    by (simp_all add: unseen_empty)
  from p obtain zs where zs: "dedupByPath (dockerPaths env workdir cfgs) = extractions tr @ zs"
    by (auto simp: prefix_def)
  have d: "distinct (map snd (extractions tr))"
    using distinct_dedupByPath[of "dockerPaths env workdir cfgs"] unfolding zs by simp
  show ?thesis
    unfolding tr res using p d e set_dedupByPath[of "dockerPaths env workdir cfgs"] by auto
qed

theorem extraction_once_per_path_witness:
  "dockerPaths sharedDockerfileEnv ''/w'' [unitA, unitA2]
     = [(''/w/a'', ''/w/a/Dockerfile''), (''/w/a'', ''/w/a/Dockerfile'')]
   \<and> extractions (calls sharedDockerfileEnv) = [(''/w/a'', ''/w/a/Dockerfile'')]
   \<and> dedupByPath (dockerPaths sharedDockerfileEnv ''/w'' [unitA, unitA2])
        = [(''/w/a'', ''/w/a/Dockerfile'')]
   \<and> tableFrom sharedDockerfileEnv Map.empty
        (dedupByPath (dockerPaths sharedDockerfileEnv ''/w'' [unitA, unitA2]))
        = [''/w/a/Dockerfile'' \<mapsto> [''/w/a/main.py'']]"
proof -
  have c: "getConfigSet sharedDockerfileEnv = Inr [unitA, unitA2]"
    and w: "realWorkDir sharedDockerfileEnv = Inr ''/w''"
    by (simp_all add: sharedDockerfileEnv_def)
  have ok: "fst (lintRun sharedDockerfileEnv)
      = Inr ([''/w/a/skaffold.yaml'', ''/w/a/skaffold2.yaml''], {''/w/a/Dockerfile''},
             [''/w/a/Dockerfile'' \<mapsto> [''/w/a/main.py'']])"
    by (simp add: shared_run)
  have e: "extractions (calls sharedDockerfileEnv) = [(''/w/a'', ''/w/a/Dockerfile'')]"
    by (simp add: calls_def shared_run)
  have p: "dockerPaths sharedDockerfileEnv ''/w'' [unitA, unitA2]
     = [(''/w/a'', ''/w/a/Dockerfile''), (''/w/a'', ''/w/a/Dockerfile'')]"
    by (simp add: dockerPaths_def artifactPaths_def dockerfilePath_def unitA_def unitA2_def
          sharedDockerfileEnv_def)
  from extraction_once_per_path[OF c w] ok
  have "extractions (calls sharedDockerfileEnv)
          = dedupByPath (dockerPaths sharedDockerfileEnv ''/w'' [unitA, unitA2])
      \<and> [''/w/a/Dockerfile'' \<mapsto> [''/w/a/main.py'']]
          = tableFrom sharedDockerfileEnv Map.empty
              (dedupByPath (dockerPaths sharedDockerfileEnv ''/w'' [unitA, unitA2]))"
    by blast
  with e p show ?thesis by simp
qed

subsection \<open>The conditions of the sync rule\<close>

text \<open>
  C8. Conditions return a plain truth value, so no condition can hand an error to its
  caller. Only the sync rule has conditions; the one that runs the nested lint is true
  exactly when that lint succeeds with at least one result, so whenever the nested
  \<open>Lint\<close> call errors the condition is false and the conditions of the sync rule do not
  all hold.
\<close>

theorem sync_condition_false_on_error:
  assumes "Lint env YamlFieldLinter lintInputs syncNestedRules = Inl err"
  shows "\<not> syncConditionNoSyncStanza (Lint env) lintInputs
     \<and> (\<forall>rule\<in>set (skaffoldYamlRules env).
           LintConditions rule \<noteq> [] \<longrightarrow>
             RuleID rule = Some SkaffoldYamlSyncPython
             \<and> LintConditions rule
                 = [syncConditionNoSyncStanza (Lint env), syncConditionPythonDeps]
             \<and> \<not> list_all (\<lambda>c. c lintInputs) (LintConditions rule))
     \<and> (\<forall>lint inputs. syncConditionNoSyncStanza lint inputs
           = (\<exists>recs. lint YamlFieldLinter inputs syncNestedRules = Inr recs \<and> recs \<noteq> []))"
proof -
  have a: "\<not> syncConditionNoSyncStanza (Lint env) lintInputs"
    using assms by (simp add: syncConditionNoSyncStanza_def)
  have b: "syncConditionNoSyncStanza lint inputs
           = (\<exists>recs. lint YamlFieldLinter inputs syncNestedRules = Inr recs \<and> recs \<noteq> [])"
    for lint :: "Linter \<Rightarrow> LintInputs \<Rightarrow> Rule list \<Rightarrow> error + 'b list" and inputs
    by (cases "lint YamlFieldLinter inputs syncNestedRules")
       (simp_all add: syncConditionNoSyncStanza_def)
  show ?thesis using a b by (simp add: skaffoldYamlRules_def)
qed

theorem sync_condition_false_on_error_witness:
  "Lint nestedLintFailsEnv YamlFieldLinter (inputsOf unitA Map.empty) syncNestedRules
     = Inl (GoError ''lint failed'')
   \<and> \<not> syncConditionNoSyncStanza (Lint nestedLintFailsEnv) (inputsOf unitA Map.empty)
   \<and> \<not> list_all (\<lambda>c. c (inputsOf unitA Map.empty))
         (LintConditions (skaffoldYamlRules nestedLintFailsEnv ! 2))"
proof -
  have f: "Lint nestedLintFailsEnv YamlFieldLinter (inputsOf unitA Map.empty) syncNestedRules
     = Inl (GoError ''lint failed'')"
    by (simp add: nestedLintFailsEnv_def lintAlwaysFails_def)
  from sync_condition_false_on_error[OF f]
  have "\<not> syncConditionNoSyncStanza (Lint nestedLintFailsEnv) (inputsOf unitA Map.empty)"
    by blast
  with f show ?thesis by (simp add: skaffoldYamlRules_def)
qed

end
